theory Spec2Isabelle
  imports Complex_Main "HOL-Library.AList"
begin

section \<open>The environment the uploaders read\<close>

text \<open>
  Both native implementations (\<^verbatim>\<open>ios/NitroCloudUploader.swift\<close> and the Kotlin class
  \<^verbatim>\<open>NitroCloudUploader\<close>) implement the interface of \<^verbatim>\<open>NitroCloudUploader.nitro.ts\<close>.
  Definitions keep the source's names; where the two sources share a name, the definition
  that embeds the Kotlin source carries the suffix \<open>_kt\<close>. Sizes and offsets are integers
  without a bound: the \<open>Int64\<close> and \<open>Long\<close> values of the sources stay below \<open>2^63\<close> for
  every file a device can hold.

  The file system is an input: for a path, whether the file exists, whether it can be
  read, and its size (\<open>None\<close> when the attributes cannot be obtained). So are the two
  percent-decoders, Swift's \<open>removingPercentEncoding\<close> and Java's \<open>URLDecoder.decode\<close>, which
  give \<open>None\<close> for a path they cannot decode.
\<close>

record file_info =
  f_exists :: bool
  f_canRead :: bool
  f_size :: "int option"

record file_env =
  removingPercentEncoding :: "string \<Rightarrow> string option"
  urlDecode :: "string \<Rightarrow> string option"
  stat :: "string \<Rightarrow> file_info"

datatype error =
    EmptyUploadId
  | EmptyFilePath
  | EmptyUploadUrls
  | AlreadyInProgress string
  | InvalidFilePath
  | FileNotFound string
  | CannotReadFile string
  | NoFileSize
  | FileIsEmpty
  | FileTooSmall int nat int
  | NoActiveUpload
  | ChunkFailed nat
  | TransportError string
  | UploadIncomplete "int list"
  | HttpStatus int
  | JobCancelled

section \<open>Swift: \<open>UploadSession\<close>\<close>

datatype State = idle | uploading | paused | completed | failed | cancelled

datatype UploadResult = UploadResult (r_uploadId: string) (r_success: bool) (r_etags: "string list")

text \<open>The calls a session makes on its \<open>UploadSessionDelegate\<close>.\<close>

datatype delegate_call =
    DidUpdateProgress real int
  | DidCompleteChunk nat
  | DidFailChunk nat error

text \<open>
  \<open>continuation\<close> is what the checked continuation of \<open>start()\<close> has been resumed with:
  \<open>None\<close> while the upload runs, a returned \<open>UploadResult\<close> or a thrown error afterwards.
  \<open>activeTasks\<close> lists the chunk indices that have a running upload task, in the order the
  tasks were started. Two fields record what the class does outside its stored properties:
  \<open>delegateCalls\<close> is the trace of delegate calls made so far, and \<open>spinning\<close> says that a
  block on the session's serial queue is caught in a loop that does not end, so that no later
  block of the queue runs.
\<close>

record UploadSession =
  uploadId :: string
  uploadUrls :: "string list"
  totalBytes :: int
  maxParallel :: int
  chunkSize :: int
  activeTasks :: "nat list"
  completedChunks :: "nat set"
  etags :: "string list"
  state :: State
  bytesUploaded :: int
  isPaused :: bool
  hasResumedContinuation :: bool
  continuation :: "(error + UploadResult) option"
  delegateCalls :: "delegate_call list"
  spinning :: bool

definition minimumChunkSize :: int where
  "minimumChunkSize = 5 * 1024 * 1024"

text \<open>
  \<^verbatim>\<open>Int64(ceil(Double(fileSize) / Double(uploadUrls.count)))\<close>. The definition takes the
  quotient in the reals. It is the value of the source for file sizes below \<open>2^53\<close> bytes:
  a \<open>Double\<close> holds each of them, and the number of URLs, exactly, and the rounded quotient
  of the two has the same ceiling as the exact one. From \<open>2^53\<close> bytes on \<open>Double(fileSize)\<close>
  is rounded and the source may compute another value (with \<open>2^53 + 1\<close> bytes and one URL
  it computes \<open>2^53\<close>), so the theorem about the part plan below is stated for files of
  fewer than \<open>2^53\<close> bytes.
\<close>

definition calculatedChunkSize :: "int \<Rightarrow> nat \<Rightarrow> int" where
  "calculatedChunkSize fileSize count = \<lceil>real_of_int fileSize / real count\<rceil>"

text \<open>
  The stored properties \<open>UploadSession.init\<close> assigns when no check fails.
\<close>

definition newSession :: "string \<Rightarrow> string list \<Rightarrow> int \<Rightarrow> int \<Rightarrow> UploadSession" where
  "newSession uid urls parallel fileSize =
     \<lparr> uploadId = uid, uploadUrls = urls, totalBytes = fileSize, maxParallel = parallel,
       chunkSize = max (calculatedChunkSize fileSize (length urls)) minimumChunkSize,
       activeTasks = [], completedChunks = {}, etags = replicate (length urls) [],
       state = idle, bytesUploaded = 0, isPaused = False,
       hasResumedContinuation = False, continuation = None,
       delegateCalls = [], spinning = False \<rparr>"

text \<open>
  \<open>UploadSession.init\<close>: decode the path, check that the file exists, read its size, compute
  the chunk size and reject a file too small for the number of URLs. A \<open>throw\<close> is \<open>Inl\<close>.
\<close>

definition UploadSession_init ::
  "file_env \<Rightarrow> string \<Rightarrow> string \<Rightarrow> string list \<Rightarrow> int \<Rightarrow> error + UploadSession" where
  "UploadSession_init env uid filePath urls parallel =
    (case removingPercentEncoding env filePath of
       None \<Rightarrow> Inl InvalidFilePath
     | Some decodedPath \<Rightarrow>
        if \<not> f_exists (stat env decodedPath) then Inl (FileNotFound decodedPath)
        else
          (case f_size (stat env decodedPath) of
             None \<Rightarrow> Inl NoFileSize
           | Some fileSize \<Rightarrow>
              let requiredMinimumSize = (int (length urls) - 1) * minimumChunkSize in
              if fileSize < requiredMinimumSize
              then Inl (FileTooSmall fileSize (length urls) requiredMinimumSize)
              else Inr (newSession uid urls parallel fileSize)))"

text \<open>
  The byte range of chunk \<open>index\<close>, as \<open>uploadChunk(at:)\<close> computes it:
  \<^verbatim>\<open>offset = Int64(index) * chunkSize\<close>, \<^verbatim>\<open>size = min(chunkSize, totalBytes - offset)\<close>.
  The part plan of a session lists the ranges of the indices \<open>0..<uploadUrls.count\<close>.
\<close>

definition chunkOffset :: "UploadSession \<Rightarrow> nat \<Rightarrow> int" where
  "chunkOffset s index = int index * chunkSize s"

definition chunkLength :: "UploadSession \<Rightarrow> nat \<Rightarrow> int" where
  "chunkLength s index = min (chunkSize s) (totalBytes s - chunkOffset s index)"

definition partPlan :: "UploadSession \<Rightarrow> (int \<times> int) list" where
  "partPlan s = map (\<lambda>i. (chunkOffset s i, chunkLength s i)) [0..<length (uploadUrls s)]"

text \<open>
  A list of (offset, size) ranges partitions \<open>[start, stop)\<close>: every range starts where the
  one before it ends, no size is negative, and the last range ends at \<open>stop\<close>.
\<close>

fun contiguous :: "int \<Rightarrow> (int \<times> int) list \<Rightarrow> int \<Rightarrow> bool" where
  "contiguous start [] stop = (start = stop)"
| "contiguous start ((off, sz) # ps) stop = (off = start \<and> 0 \<le> sz \<and> contiguous (start + sz) ps stop)"

text \<open>
  The index \<open>getNextChunkIndex\<close> returns: the first of \<open>0..<uploadUrls.count\<close> that is neither
  completed nor active.
\<close>

definition getNextChunkIndex :: "UploadSession \<Rightarrow> nat option" where
  "getNextChunkIndex s =
     find (\<lambda>i. i \<notin> completedChunks s \<and> i \<notin> set (activeTasks s)) [0..<length (uploadUrls s)]"

text \<open>
  \<open>complete()\<close> and \<open>fail(with:)\<close> resume the continuation once: both return at once when
  \<open>hasResumedContinuation\<close> is already set.
\<close>

definition complete :: "UploadSession \<Rightarrow> UploadSession" where
  "complete s =
     (if hasResumedContinuation s then s
      else s\<lparr> hasResumedContinuation := True, state := completed,
              continuation := Some (Inr (UploadResult (uploadId s) True (etags s))) \<rparr>)"

definition fail :: "error \<Rightarrow> UploadSession \<Rightarrow> UploadSession" where
  "fail e s =
     (if hasResumedContinuation s then s
      else s\<lparr> hasResumedContinuation := True, state := failed, continuation := Some (Inl e) \<rparr>)"

text \<open>
  \<open>uploadChunk(at:)\<close> reads the chunk, writes it to a temporary file, parses the URL and starts
  an upload task. \<open>prep index\<close> is the error this preparation throws for the chunk, \<open>None\<close>
  when it throws nothing; it answers the same every time it is asked. With no error the task
  is entered into \<open>activeTasks\<close>; with an error the \<open>catch\<close> reports the chunk to the delegate
  and calls \<open>fail(with:)\<close>, leaving \<open>activeTasks\<close> as it was.
\<close>

definition uploadChunk :: "(nat \<Rightarrow> error option) \<Rightarrow> nat \<Rightarrow> UploadSession \<Rightarrow> UploadSession" where
  "uploadChunk prep index s =
     (case prep index of
        None \<Rightarrow> s\<lparr> activeTasks := activeTasks s @ [index] \<rparr>
      | Some e \<Rightarrow> fail e (s\<lparr> delegateCalls := delegateCalls s @ [DidFailChunk index e] \<rparr>))"

text \<open>
  Every mutation of a session runs as a block on the session's serial queue
  (\<^verbatim>\<open>queue.async { ... }\<close>). The blocks are taken one at a time, each to its end, in the order
  they are submitted; a block submitted while the queue is stuck never runs.
\<close>

definition onQueue :: "(UploadSession \<Rightarrow> UploadSession) \<Rightarrow> UploadSession \<Rightarrow> UploadSession" where
  "onQueue body s = (if spinning s then s else body s)"

text \<open>
  The \<open>while\<close> loop of \<open>uploadNextChunks\<close>. When \<open>uploadChunk(at:)\<close> fails, no task is added and
  the loop does not read \<open>state\<close> again: it picks the same index for ever. The model stops
  there, after the first failing round, with \<open>spinning\<close> set.
\<close>

lemma getNextChunkIndex_Some:
  "getNextChunkIndex s = Some i \<Longrightarrow>
     i < length (uploadUrls s) \<and> i \<notin> completedChunks s \<and> i \<notin> set (activeTasks s)"
  by (auto simp: getNextChunkIndex_def find_Some_iff)

lemma pending_decreases:
  assumes "getNextChunkIndex s = Some i"
  shows "length (filter (\<lambda>j. j \<notin> completedChunks s \<and> j \<notin> set (activeTasks s @ [i]))
                  [0..<length (uploadUrls s)])
       < length (filter (\<lambda>j. j \<notin> completedChunks s \<and> j \<notin> set (activeTasks s))
                  [0..<length (uploadUrls s)])"
proof -
  let ?P = "\<lambda>j. j \<notin> completedChunks s \<and> j \<notin> set (activeTasks s)"
  let ?xs = "filter ?P [0..<length (uploadUrls s)]"
  have "filter (\<lambda>j. j \<notin> completedChunks s \<and> j \<notin> set (activeTasks s @ [i]))
          [0..<length (uploadUrls s)] = filter (\<lambda>j. j \<noteq> i) ?xs"
    by (auto intro: filter_cong)
  moreover have "i \<in> set ?xs"
    using getNextChunkIndex_Some [OF assms] by simp
  then have "length (filter (\<lambda>j. j \<noteq> i) ?xs) < length ?xs"
    by (intro length_filter_less [of i]) simp_all
  ultimately show ?thesis by simp
qed

function uploadNextChunks_loop :: "(nat \<Rightarrow> error option) \<Rightarrow> UploadSession \<Rightarrow> UploadSession" where
  "uploadNextChunks_loop prep s =
     (if int (length (activeTasks s)) < maxParallel s then
        (case getNextChunkIndex s of
           None \<Rightarrow> if activeTasks s = [] then complete s else s
         | Some nextIndex \<Rightarrow>
             (case prep nextIndex of
                None \<Rightarrow> uploadNextChunks_loop prep (uploadChunk prep nextIndex s)
              | Some e \<Rightarrow> (uploadChunk prep nextIndex s)\<lparr> spinning := True \<rparr>))
      else s)"
  by pat_completeness auto
termination
proof (relation "measure (\<lambda>(prep, s).
    length (filter (\<lambda>j. j \<notin> completedChunks s \<and> j \<notin> set (activeTasks s)) [0..<length (uploadUrls s)]))")
  show "wf (measure (\<lambda>(prep, s).
    length (filter (\<lambda>j. j \<notin> completedChunks s \<and> j \<notin> set (activeTasks s)) [0..<length (uploadUrls s)])))"
    by simp
next
  fix prep :: "nat \<Rightarrow> error option" and s :: UploadSession and i
  assume "getNextChunkIndex s = Some i" "prep i = None"
  then show "((prep, uploadChunk prep i s), (prep, s)) \<in> measure (\<lambda>(prep, s).
    length (filter (\<lambda>j. j \<notin> completedChunks s \<and> j \<notin> set (activeTasks s)) [0..<length (uploadUrls s)]))"
    using pending_decreases [of s i] by (simp add: uploadChunk_def)
qed

declare uploadNextChunks_loop.simps [simp del]

definition uploadNextChunks :: "(nat \<Rightarrow> error option) \<Rightarrow> UploadSession \<Rightarrow> UploadSession" where
  "uploadNextChunks prep = onQueue (\<lambda>s. if state s \<noteq> uploading then s else uploadNextChunks_loop prep s)"

text \<open>\<open>start()\<close> stores the continuation, sets the state and asks for the first chunks.\<close>

definition start :: "(nat \<Rightarrow> error option) \<Rightarrow> UploadSession \<Rightarrow> UploadSession" where
  "start prep s = uploadNextChunks prep (s\<lparr> state := uploading \<rparr>)"

text \<open>
  \<open>pause()\<close>, \<open>resume()\<close> and \<open>cancel()\<close>. Suspending, resuming and cancelling the running
  \<open>URLSessionTask\<close>s acts on the transport, which the model does not hold; \<open>cancel()\<close> empties
  \<open>activeTasks\<close> and resumes the continuation with an unsuccessful result without etags.
\<close>

definition pause :: "UploadSession \<Rightarrow> UploadSession" where
  "pause = onQueue (\<lambda>s. if state s \<noteq> uploading then s else s\<lparr> state := paused, isPaused := True \<rparr>)"

definition resume :: "(nat \<Rightarrow> error option) \<Rightarrow> UploadSession \<Rightarrow> UploadSession" where
  "resume prep = onQueue (\<lambda>s. if state s \<noteq> paused then s
                               else uploadNextChunks prep (s\<lparr> state := uploading, isPaused := False \<rparr>))"

definition cancel :: "UploadSession \<Rightarrow> UploadSession" where
  "cancel = onQueue (\<lambda>s. if hasResumedContinuation s then s
                          else s\<lparr> hasResumedContinuation := True, state := cancelled, activeTasks := [],
                                  continuation := Some (Inr (UploadResult (uploadId s) False [])) \<rparr>)"

text \<open>
  What an upload task ends with: a transport error, no HTTP response, or a response with its
  status code and header dictionary. The dictionary is read by exact key, as the Swift
  subscript on \<open>allHeaderFields\<close> does.
\<close>

datatype task_outcome =
    TaskError error
  | NoHTTPResponse
  | HTTPResponse int "string \<rightharpoonup> string"

definition responseEtag :: "(string \<rightharpoonup> string) \<Rightarrow> string" where
  "responseEtag allHeaderFields =
     (case allHeaderFields ''Etag'' of
        Some v \<Rightarrow> v
      | None \<Rightarrow> (case allHeaderFields ''ETag'' of Some v \<Rightarrow> v | None \<Rightarrow> []))"

definition progress :: "UploadSession \<Rightarrow> real" where
  "progress s = (if totalBytes s > 0 then real_of_int (bytesUploaded s) / real_of_int (totalBytes s) else 0)"

text \<open>
  The two failure branches of the completion handler: report the chunk to the delegate, and
  fail the upload when no task is left running and not every chunk is complete.
\<close>

definition chunkFailed :: "nat \<Rightarrow> error \<Rightarrow> UploadSession \<Rightarrow> UploadSession" where
  "chunkFailed index e s =
     (let s1 = s\<lparr> delegateCalls := delegateCalls s @ [DidFailChunk index e] \<rparr> in
      if activeTasks s1 = [] \<and> card (completedChunks s1) < length (uploadUrls s1)
      then fail e s1 else s1)"

text \<open>
  The success branch of the completion handler, with the etag read from the response: store
  the etag at the chunk's index, mark the chunk complete, add its size to \<open>bytesUploaded\<close>,
  tell the delegate, then complete the upload when every chunk is complete and ask for the
  next chunks otherwise. Every index in \<open>activeTasks\<close> is below \<open>uploadUrls.count\<close>, so the
  array write \<open>etags[index] = etag\<close> is in range.
\<close>

definition chunkSucceeded :: "(nat \<Rightarrow> error option) \<Rightarrow> nat \<Rightarrow> string \<Rightarrow> UploadSession \<Rightarrow> UploadSession" where
  "chunkSucceeded prep index etag s =
     (let s2 = s\<lparr> etags := (etags s)[index := etag],
                   completedChunks := insert index (completedChunks s),
                   bytesUploaded := bytesUploaded s
                     + min (chunkSize s) (totalBytes s - int index * chunkSize s) \<rparr>;
          s3 = s2\<lparr> delegateCalls := delegateCalls s2
                      @ [DidUpdateProgress (progress s2) (bytesUploaded s2), DidCompleteChunk index] \<rparr>
      in if card (completedChunks s3) = length (uploadUrls s3)
         then complete s3 else uploadNextChunks prep s3)"

text \<open>
  \<open>urlSession(_:task:didCompleteWithError:)\<close>, for the task of chunk \<open>index\<close>. A task that is
  not in \<open>activeTasks\<close> is ignored; a task that ends after the session has left \<open>uploading\<close>
  and \<open>paused\<close> is only removed.
\<close>

definition urlSession_didCompleteWithError ::
  "(nat \<Rightarrow> error option) \<Rightarrow> nat \<Rightarrow> task_outcome \<Rightarrow> UploadSession \<Rightarrow> UploadSession" where
  "urlSession_didCompleteWithError prep index ended = onQueue (\<lambda>s.
     if index \<notin> set (activeTasks s) then s
     else
       let s1 = s\<lparr> activeTasks := removeAll index (activeTasks s) \<rparr> in
       if state s1 \<noteq> uploading \<and> state s1 \<noteq> paused then s1
       else
         (case ended of
            TaskError e \<Rightarrow> chunkFailed index e s1
          | NoHTTPResponse \<Rightarrow> chunkFailed index (ChunkFailed index) s1
          | HTTPResponse statusCode allHeaderFields \<Rightarrow>
              if \<not> (200 \<le> statusCode \<and> statusCode \<le> 299)
              then chunkFailed index (ChunkFailed index) s1
              else chunkSucceeded prep index (responseEtag allHeaderFields) s1))"

section \<open>Events and listeners (Swift and Kotlin)\<close>

text \<open>
  \<open>UploadProgressEvent\<close> of the interface. \<open>errorMessage\<close> holds the error whose description
  the source sends.
\<close>

record UploadProgressEvent =
  type :: string
  uploadId_ev :: string
  progress_ev :: "real option"
  bytesUploaded_ev :: "real option"
  totalBytes_ev :: "real option"
  chunkIndex :: "real option"
  errorMessage :: "error option"

text \<open>
  A callback is known by its identity. \<open>eventListeners\<close> is a dictionary from the event type
  to the list of callbacks registered under it. Swift's \<open>addListener\<close> creates the empty
  list when the key is missing and appends; Kotlin's is \<^verbatim>\<open>getOrPut(eventType) { mutableListOf() }.add(callback)\<close>.
  \<open>removeListener\<close> removes the key (\<^verbatim>\<open>eventListeners[eventType] = nil\<close>,
  \<^verbatim>\<open>eventListeners.remove(eventType)\<close>). Both sources are the same function of the dictionary.
\<close>

type_synonym callback = nat
type_synonym listeners = "string \<rightharpoonup> callback list"

definition addListener :: "string \<Rightarrow> callback \<Rightarrow> listeners \<Rightarrow> listeners" where
  "addListener eventType cb eventListeners =
     (let withKey = (if eventListeners eventType = None then eventListeners(eventType \<mapsto> [])
                     else eventListeners)
      in withKey(eventType := map_option (\<lambda>cbs. cbs @ [cb]) (withKey eventType)))"

definition removeListener :: "string \<Rightarrow> listeners \<Rightarrow> listeners" where
  "removeListener eventType eventListeners = eventListeners(eventType := None)"

text \<open>
  \<open>emitEvent\<close> calls the callbacks under the event's own type, then the callbacks under
  \<open>all\<close>. Its value is the list of calls made, in order. Swift makes the calls in a block
  on the main queue, which runs the blocks in the order of the emissions; the model takes
  the listeners as they are when the event is emitted.
\<close>

definition emitEvent :: "UploadProgressEvent \<Rightarrow> listeners \<Rightarrow> (callback \<times> UploadProgressEvent) list" where
  "emitEvent event eventListeners =
     (case eventListeners (type event) of None \<Rightarrow> [] | Some cbs \<Rightarrow> map (\<lambda>cb. (cb, event)) cbs)
     @ (case eventListeners ''all'' of None \<Rightarrow> [] | Some cbs \<Rightarrow> map (\<lambda>cb. (cb, event)) cbs)"

text \<open>The callbacks registered under an event type, none when the key is missing.\<close>

definition callbacksOf :: "listeners \<Rightarrow> string \<Rightarrow> callback list" where
  "callbacksOf eventListeners eventType = (case eventListeners eventType of None \<Rightarrow> [] | Some cbs \<Rightarrow> cbs)"

text \<open>An event that carries only its type and upload id.\<close>

definition plainEvent :: "string \<Rightarrow> string \<Rightarrow> UploadProgressEvent" where
  "plainEvent t uid = \<lparr> type = t, uploadId_ev = uid, progress_ev = None, bytesUploaded_ev = None,
                        totalBytes_ev = None, chunkIndex = None, errorMessage = None \<rparr>"

section \<open>Swift: \<open>NitroCloudUploader\<close>\<close>

text \<open>
  The Swift class holds at most one upload. \<open>delivered\<close> is the trace of callback calls made
  by \<open>emitEvent\<close>.
\<close>

record Uploader =
  currentUpload :: "UploadSession option"
  isNetworkAvailable :: bool
  eventListeners :: listeners
  delivered :: "(callback \<times> UploadProgressEvent) list"

definition emit :: "UploadProgressEvent \<Rightarrow> Uploader \<Rightarrow> Uploader" where
  "emit event u = u\<lparr> delivered := delivered u @ emitEvent event (eventListeners u) \<rparr>"

text \<open>
  \<open>Int(_:)\<close> on a \<open>Double\<close> and Kotlin's \<open>toInt()\<close>: the fraction is dropped. (Kotlin's value
  stops at the ends of the \<open>Int\<close> range, which the clamp into \<open>[1, 10]\<close> hides.)
\<close>

definition toInt :: "real \<Rightarrow> int" where
  "toInt x = (if 0 \<le> x then \<lfloor>x\<rfloor> else \<lceil>x\<rceil>)"

text \<open>
  \<open>startUpload\<close> up to the point where it awaits \<open>session.start()\<close>: the input checks, the
  check for an upload in progress, the construction of the session, its registration, the
  \<open>upload-started\<close> event and the start of the first chunks.
\<close>

definition startUpload ::
  "file_env \<Rightarrow> (nat \<Rightarrow> error option) \<Rightarrow> string \<Rightarrow> string \<Rightarrow> string list \<Rightarrow> real option
     \<Rightarrow> Uploader \<Rightarrow> (error + unit) \<times> Uploader" where
  "startUpload env prep uid filePath urls maxPar u =
     (if uid = [] then (Inl EmptyUploadId, u)
      else if filePath = [] then (Inl EmptyFilePath, u)
      else if urls = [] then (Inl EmptyUploadUrls, u)
      else
        (case currentUpload u of
           Some existing \<Rightarrow> (Inl (AlreadyInProgress (uploadId existing)), u)
         | None \<Rightarrow>
            let parallel = toInt (case maxPar of None \<Rightarrow> 3 | Some d \<Rightarrow> d) in
            (case UploadSession_init env uid filePath urls parallel of
               Inl e \<Rightarrow> (Inl e, u)
             | Inr session \<Rightarrow>
                let u1 = u\<lparr> currentUpload := Some session \<rparr>;
                    u2 = emit ((plainEvent ''upload-started'' uid)
                                \<lparr> progress_ev := Some 0, bytesUploaded_ev := Some 0,
                                  totalBytes_ev := Some (real_of_int (totalBytes session)) \<rparr>) u1
                in (Inr (), u2\<lparr> currentUpload := Some (start prep session) \<rparr>))))"

text \<open>
  The rest of \<open>startUpload\<close>, run when the continuation of \<open>session\<close> has been resumed: the
  slot is cleared, the closing event is emitted and the result is returned or the error
  thrown. \<open>None\<close> while the continuation has not been resumed.
\<close>

definition startUpload_resumed :: "UploadSession \<Rightarrow> Uploader \<Rightarrow> (error + UploadResult) option \<times> Uploader" where
  "startUpload_resumed session u =
     (case continuation session of
        None \<Rightarrow> (None, u)
      | Some (Inl e) \<Rightarrow>
          (Some (Inl e),
           emit ((plainEvent ''upload-failed'' (uploadId session))
                   \<lparr> totalBytes_ev := Some (real_of_int (totalBytes session)), errorMessage := Some e \<rparr>)
                (u\<lparr> currentUpload := None \<rparr>))
      | Some (Inr result) \<Rightarrow>
          (Some (Inr result),
           emit (if r_success result
                 then (plainEvent ''upload-completed'' (uploadId session))
                        \<lparr> progress_ev := Some 1,
                          bytesUploaded_ev := Some (real_of_int (totalBytes session)),
                          totalBytes_ev := Some (real_of_int (totalBytes session)) \<rparr>
                 else (plainEvent ''upload-failed'' (uploadId session))
                        \<lparr> totalBytes_ev := Some (real_of_int (totalBytes session)),
                          errorMessage := Some (TransportError ''Upload failed'') \<rparr>)
                (u\<lparr> currentUpload := None \<rparr>)))"

text \<open>
  \<open>pauseUpload\<close>, \<open>resumeUpload\<close>, \<open>cancelUpload\<close> and \<open>getUploadState\<close>. The first two and the
  last throw when no upload with the id is current; \<open>cancelUpload\<close> returns. The session
  that \<open>cancelUpload\<close> cancels leaves the uploader; it lives on, as \<open>cancel session\<close>, in the
  \<open>startUpload\<close> call that awaits it.
\<close>

definition currentSession :: "string \<Rightarrow> Uploader \<Rightarrow> UploadSession option" where
  "currentSession uid u =
     (case currentUpload u of
        None \<Rightarrow> None
      | Some session \<Rightarrow> if uploadId session = uid then Some session else None)"

definition pauseUpload :: "string \<Rightarrow> Uploader \<Rightarrow> (error + unit) \<times> Uploader" where
  "pauseUpload uid u =
     (case currentSession uid u of
        None \<Rightarrow> (Inl NoActiveUpload, u)
      | Some session \<Rightarrow>
          (Inr (), emit (plainEvent ''upload-paused'' uid) (u\<lparr> currentUpload := Some (pause session) \<rparr>)))"

definition resumeUpload :: "(nat \<Rightarrow> error option) \<Rightarrow> string \<Rightarrow> Uploader \<Rightarrow> (error + unit) \<times> Uploader" where
  "resumeUpload prep uid u =
     (case currentSession uid u of
        None \<Rightarrow> (Inl NoActiveUpload, u)
      | Some session \<Rightarrow>
          (Inr (), emit (plainEvent ''upload-resumed'' uid)
                     (u\<lparr> currentUpload := Some (resume prep session) \<rparr>)))"

definition cancelUpload :: "string \<Rightarrow> Uploader \<Rightarrow> (error + unit) \<times> Uploader" where
  "cancelUpload uid u =
     (case currentSession uid u of
        None \<Rightarrow> (Inr (), u)
      | Some session \<Rightarrow>
          (Inr (), emit (plainEvent ''upload-cancelled'' uid) (u\<lparr> currentUpload := None \<rparr>)))"

record UploadState =
  uploadId_st :: string
  state_st :: State
  progress_st :: real
  bytesUploaded_st :: real
  totalBytes_st :: real
  isPaused_st :: bool
  isNetworkAvailable_st :: bool

definition getUploadState :: "string \<Rightarrow> Uploader \<Rightarrow> error + UploadState" where
  "getUploadState uid u =
     (case currentSession uid u of
        None \<Rightarrow> Inl NoActiveUpload
      | Some session \<Rightarrow>
          Inr \<lparr> uploadId_st = uid, state_st = state session, progress_st = progress session,
                bytesUploaded_st = real_of_int (bytesUploaded session),
                totalBytes_st = real_of_int (totalBytes session),
                isPaused_st = isPaused session, isNetworkAvailable_st = isNetworkAvailable u \<rparr>)"

text \<open>
  The \<open>pathUpdateHandler\<close> of the network monitor, with \<open>isAvailable\<close> the new status: on a
  loss the current upload is paused, on a restore it is resumed, and the event is emitted
  when an upload is current.
\<close>

definition pathUpdateHandler :: "(nat \<Rightarrow> error option) \<Rightarrow> bool \<Rightarrow> Uploader \<Rightarrow> Uploader" where
  "pathUpdateHandler prep isAvailable u =
     (let wasAvailable = isNetworkAvailable u;
          u1 = u\<lparr> isNetworkAvailable := isAvailable \<rparr>
      in if wasAvailable \<and> \<not> isAvailable then
           (case currentUpload u1 of
              None \<Rightarrow> u1
            | Some session \<Rightarrow>
                emit (plainEvent ''network-lost'' (uploadId session))
                  (u1\<lparr> currentUpload := Some (pause session) \<rparr>))
         else if \<not> wasAvailable \<and> isAvailable then
           (case currentUpload u1 of
              None \<Rightarrow> u1
            | Some session \<Rightarrow>
                emit (plainEvent ''network-restored'' (uploadId session))
                  (u1\<lparr> currentUpload := Some (resume prep session) \<rparr>))
         else u1)"


section \<open>Kotlin: \<open>NitroCloudUploader\<close>\<close>

text \<open>
  \<open>job_cancelled\<close> stands for the coroutine \<open>Job\<close> of an upload: whether \<open>cancel()\<close> has been
  called on it. \<open>partETags\<close> is an insertion-ordered map and \<open>failedChunks\<close> an
  insertion-ordered set, both kept as lists.
\<close>

record UploadJob =
  uploadId_kt :: string
  job_cancelled :: bool
  isPaused_kt :: bool

record UploadStateData =
  totalBytes_kt :: int
  bytesUploaded_kt :: int
  completedChunks_kt :: int
  totalChunks :: int
  partETags :: "(int \<times> string) list"
  failedChunks :: "int list"

record PartInfo =
  partNumber :: int
  url :: string
  offset :: int
  size_kt :: int

record Uploader_kt =
  activeUploads :: "string \<rightharpoonup> UploadJob"
  uploadStates :: "string \<rightharpoonup> UploadStateData"
  eventListeners_kt :: listeners
  isNetworkAvailable_kt :: bool
  delivered_kt :: "(callback \<times> UploadProgressEvent) list"

definition MAX_RETRIES :: nat where
  "MAX_RETRIES = 3"

definition emit_kt :: "UploadProgressEvent \<Rightarrow> Uploader_kt \<Rightarrow> Uploader_kt" where
  "emit_kt event u = u\<lparr> delivered_kt := delivered_kt u @ emitEvent event (eventListeners_kt u) \<rparr>"

definition cleanup :: "string \<Rightarrow> Uploader_kt \<Rightarrow> Uploader_kt" where
  "cleanup uid u = u\<lparr> activeUploads := (activeUploads u)(uid := None),
                       uploadStates := (uploadStates u)(uid := None) \<rparr>"

definition coerceIn :: "int \<Rightarrow> int \<Rightarrow> int \<Rightarrow> int" where
  "coerceIn lo hi x = (if x < lo then lo else if x > hi then hi else x)"

text \<open>\<^verbatim>\<open>maxParallel?.toInt()?.coerceIn(1, 10) ?: 3\<close>\<close>

definition parallel_kt :: "real option \<Rightarrow> int" where
  "parallel_kt maxPar = (case maxPar of None \<Rightarrow> 3 | Some d \<Rightarrow> coerceIn 1 10 (toInt d))"

definition removePrefix :: "string \<Rightarrow> string \<Rightarrow> string" where
  "removePrefix p str = (if take (length p) str = p then drop (length p) str else str)"

text \<open>
  \<open>startUpload\<close> up to the launch of the upload job. Every exception thrown in the \<open>try\<close> is
  caught by the one \<open>catch\<close>, which calls \<open>cleanup(uploadId)\<close> and rejects the promise.
  \<open>File.length()\<close> is 0 when the size cannot be read.
\<close>

definition startUpload_kt ::
  "file_env \<Rightarrow> string \<Rightarrow> string \<Rightarrow> string list \<Rightarrow> real option \<Rightarrow> Uploader_kt
     \<Rightarrow> (error + unit) \<times> Uploader_kt" where
  "startUpload_kt env uid filePath urls maxPar u =
     (if activeUploads u uid \<noteq> None then (Inl (AlreadyInProgress uid), cleanup uid u)
      else
        (case urlDecode env filePath of
           None \<Rightarrow> (Inl InvalidFilePath, cleanup uid u)
         | Some decoded \<Rightarrow>
            let decodedPath = removePrefix ''file://'' decoded;
                file = stat env decodedPath;
                fileSize = (case f_size file of None \<Rightarrow> 0 | Some n \<Rightarrow> n)
            in if \<not> f_exists file then (Inl (FileNotFound decodedPath), cleanup uid u)
               else if \<not> f_canRead file then (Inl (CannotReadFile decodedPath), cleanup uid u)
               else if fileSize = 0 then (Inl FileIsEmpty, cleanup uid u)
               else
                 let u1 = u\<lparr> uploadStates := (uploadStates u)(uid \<mapsto>
                             \<lparr> totalBytes_kt = fileSize, bytesUploaded_kt = 0, completedChunks_kt = 0,
                               totalChunks = int (length urls), partETags = [], failedChunks = [] \<rparr>) \<rparr>;
                     u2 = u1\<lparr> activeUploads := (activeUploads u1)(uid \<mapsto>
                             \<lparr> uploadId_kt = uid, job_cancelled = False, isPaused_kt = False \<rparr>) \<rparr>
                 in (Inr (), emit_kt ((plainEvent ''upload-started'' uid)
                                       \<lparr> progress_ev := Some 0, bytesUploaded_ev := Some 0,
                                         totalBytes_ev := Some (real_of_int fileSize) \<rparr>) u2)))"

definition pauseUpload_kt :: "string \<Rightarrow> Uploader_kt \<Rightarrow> (error + unit) \<times> Uploader_kt" where
  "pauseUpload_kt uid u =
     (case activeUploads u uid of
        None \<Rightarrow> (Inl NoActiveUpload, u)
      | Some uploadJob \<Rightarrow>
          (Inr (), emit_kt (plainEvent ''upload-paused'' uid)
                     (u\<lparr> activeUploads := (activeUploads u)(uid \<mapsto> uploadJob\<lparr> isPaused_kt := True \<rparr>) \<rparr>)))"

definition resumeUpload_kt :: "string \<Rightarrow> Uploader_kt \<Rightarrow> (error + unit) \<times> Uploader_kt" where
  "resumeUpload_kt uid u =
     (case activeUploads u uid of
        None \<Rightarrow> (Inl NoActiveUpload, u)
      | Some uploadJob \<Rightarrow>
          (Inr (), emit_kt (plainEvent ''upload-resumed'' uid)
                     (u\<lparr> activeUploads := (activeUploads u)(uid \<mapsto> uploadJob\<lparr> isPaused_kt := False \<rparr>) \<rparr>)))"

text \<open>
  \<open>cancelUpload\<close> cancels the job when there is one, emits \<open>upload-cancelled\<close> in either case,
  removes both registry entries and resolves.
\<close>

definition cancelUpload_kt :: "string \<Rightarrow> Uploader_kt \<Rightarrow> (error + unit) \<times> Uploader_kt" where
  "cancelUpload_kt uid u =
     (let u1 = (case activeUploads u uid of
                  None \<Rightarrow> u
                | Some uploadJob \<Rightarrow>
                    u\<lparr> activeUploads := (activeUploads u)(uid \<mapsto> uploadJob\<lparr> job_cancelled := True \<rparr>) \<rparr>)
      in (Inr (), cleanup uid (emit_kt (plainEvent ''upload-cancelled'' uid) u1)))"

definition stateName_kt :: "bool \<Rightarrow> UploadStateData \<Rightarrow> State" where
  "stateName_kt pausedNow st =
     (if pausedNow then paused
      else if failedChunks st \<noteq> [] then failed
      else if completedChunks_kt st = totalChunks st then completed
      else uploading)"

definition getUploadState_kt :: "string \<Rightarrow> Uploader_kt \<Rightarrow> error + UploadState" where
  "getUploadState_kt uid u =
     (case uploadStates u uid of
        None \<Rightarrow> Inl NoActiveUpload
      | Some st \<Rightarrow>
          let pausedNow = (case activeUploads u uid of None \<Rightarrow> False | Some uploadJob \<Rightarrow> isPaused_kt uploadJob)
          in Inr \<lparr> uploadId_st = uid, state_st = stateName_kt pausedNow st,
                   progress_st = (if totalBytes_kt st > 0
                                  then real_of_int (bytesUploaded_kt st) / real_of_int (totalBytes_kt st) else 0),
                   bytesUploaded_st = real_of_int (bytesUploaded_kt st),
                   totalBytes_st = real_of_int (totalBytes_kt st),
                   isPaused_st = pausedNow, isNetworkAvailable_st = isNetworkAvailable_kt u \<rparr>)"


subsection \<open>The upload job\<close>

text \<open>
  The parts \<open>performUpload\<close> computes: part \<open>index + 1\<close> runs from \<open>fileSize * index / n\<close> to
  \<open>fileSize * (index + 1) / n\<close>, the last one to \<open>fileSize\<close>. The products are taken without
  overflow, which holds while \<open>fileSize * n\<close> is below \<open>2^63\<close>; the operands are not negative,
  so \<open>Long\<close> division is \<open>div\<close>.
\<close>

definition partInfo :: "int \<Rightarrow> string list \<Rightarrow> nat \<Rightarrow> PartInfo" where
  "partInfo fileSize urls index =
     (let off = (fileSize * int index) div int (length urls);
          nextOffset = (if index = length urls - 1 then fileSize
                        else (fileSize * (int index + 1)) div int (length urls))
      in \<lparr> partNumber = int index + 1, url = urls ! index, offset = off,
           size_kt = nextOffset - off \<rparr>)"

definition parts_kt :: "int \<Rightarrow> string list \<Rightarrow> PartInfo list" where
  "parts_kt fileSize urls = map (partInfo fileSize urls) [0..<length urls]"

text \<open>
  The response headers are a list of name and value pairs in the order received. OkHttp's
  \<open>Response.header(name)\<close> compares names without regard to ASCII case and returns the last
  value of the header, \<open>null\<close> when there is none. Kotlin's \<open>trim('"')\<close> drops every leading
  and every trailing quote character.
\<close>

definition lowercase :: "char \<Rightarrow> char" where
  "lowercase c =
     (case map_of (zip ''ABCDEFGHIJKLMNOPQRSTUVWXYZ'' ''abcdefghijklmnopqrstuvwxyz'') c of
        None \<Rightarrow> c
      | Some l \<Rightarrow> l)"

definition header :: "string \<Rightarrow> (string \<times> string) list \<Rightarrow> string option" where
  "header name headers =
     (case filter (\<lambda>(n, v). map lowercase n = map lowercase name) headers of
        [] \<Rightarrow> None
      | found \<Rightarrow> Some (snd (last found)))"

definition trim_quote :: "string \<Rightarrow> string" where
  "trim_quote str = rev (dropWhile (\<lambda>c. c = CHR 0x22) (rev (dropWhile (\<lambda>c. c = CHR 0x22) str)))"

definition responseEtag_kt :: "(string \<times> string) list \<Rightarrow> string" where
  "responseEtag_kt headers =
     (case header ''ETag'' headers of
        Some v \<Rightarrow> trim_quote v
      | None \<Rightarrow> (case header ''etag'' headers of Some v \<Rightarrow> trim_quote v | None \<Rightarrow> []))"

text \<open>
  One round of the \<open>while\<close> loop of \<open>uploadPart\<close> reads the pause flag and the job's \<open>isActive\<close>,
  and, when it goes on, reads the chunk and sends it. A \<open>tick\<close> holds what one round
  observes: the two flags and what the attempt ends with, a thrown exception or a response
  with its status code and headers.
\<close>

datatype attempt = Throws error | Responds int "(string \<times> string) list"

record tick =
  paused_now :: bool
  active_now :: bool
  outcome :: attempt

text \<open>
  How a call of \<open>uploadPart\<close> ends: it returns \<open>true\<close>, it returns \<open>false\<close> after the last
  attempt, it returns \<open>false\<close> because the job is no longer active, or (the list of ticks
  being used up) it has not returned yet.
\<close>

datatype part_end = ReturnedTrue | ReturnedFalse | CancelledFalse | Running

text \<open>
  What the job has done so far: the \<open>UploadStateData\<close> it writes to, the delays it has slept
  (milliseconds, in order) and the events it has emitted.
\<close>

record part_run =
  st :: UploadStateData
  slept :: "int list"
  emitted :: "UploadProgressEvent list"

definition partUploaded :: "string \<Rightarrow> PartInfo \<Rightarrow> string \<Rightarrow> part_run \<Rightarrow> part_run" where
  "partUploaded uid part etag w =
     (let s1 = (st w)\<lparr> partETags := AList.update (partNumber part) etag (partETags (st w)),
                       completedChunks_kt := completedChunks_kt (st w) + 1,
                       bytesUploaded_kt := bytesUploaded_kt (st w) + size_kt part,
                       failedChunks := removeAll (partNumber part) (failedChunks (st w)) \<rparr>
      in w\<lparr> st := s1,
             emitted := emitted w
               @ [(plainEvent ''chunk-completed'' uid)\<lparr> chunkIndex := Some (real_of_int (partNumber part - 1)) \<rparr>,
                  (plainEvent ''upload-progress'' uid)
                    \<lparr> progress_ev := Some (real_of_int (bytesUploaded_kt s1) / real_of_int (totalBytes_kt s1)),
                      bytesUploaded_ev := Some (real_of_int (bytesUploaded_kt s1)),
                      totalBytes_ev := Some (real_of_int (totalBytes_kt s1)) \<rparr>] \<rparr>)"

text \<open>
  The \<open>catch\<close> of a failed attempt, \<open>retries\<close> being the count after \<open>retries++\<close>: sleep
  \<open>1000 * retries\<close> milliseconds when attempts are left, else enter the part into
  \<open>failedChunks\<close> and emit \<open>chunk-failed\<close>.
\<close>

definition attemptFailed :: "string \<Rightarrow> PartInfo \<Rightarrow> nat \<Rightarrow> error \<Rightarrow> part_run \<Rightarrow> part_run" where
  "attemptFailed uid part retries e w =
     (if retries < MAX_RETRIES then w\<lparr> slept := slept w @ [1000 * int retries] \<rparr>
      else w\<lparr> st := (st w)\<lparr> failedChunks :=
                   (if partNumber part \<in> set (failedChunks (st w)) then failedChunks (st w)
                    else failedChunks (st w) @ [partNumber part]) \<rparr>,
              emitted := emitted w
                @ [(plainEvent ''chunk-failed'' uid)
                     \<lparr> chunkIndex := Some (real_of_int (partNumber part - 1)), errorMessage := Some e \<rparr>] \<rparr>)"

fun uploadPart_loop :: "string \<Rightarrow> PartInfo \<Rightarrow> nat \<Rightarrow> tick list \<Rightarrow> part_run \<Rightarrow> part_end \<times> part_run" where
  "uploadPart_loop uid part retries [] w =
     (if retries < MAX_RETRIES then (Running, w) else (ReturnedFalse, w))"
| "uploadPart_loop uid part retries (t # ts) w =
     (if \<not> retries < MAX_RETRIES then (ReturnedFalse, w)
      else if paused_now t then uploadPart_loop uid part retries ts (w\<lparr> slept := slept w @ [1000] \<rparr>)
      else if \<not> active_now t then (CancelledFalse, w)
      else
        (case outcome t of
           Responds code headers \<Rightarrow>
             if 200 \<le> code \<and> code \<le> 299
             then (ReturnedTrue, partUploaded uid part (responseEtag_kt headers) w)
             else uploadPart_loop uid part (Suc retries) ts
                    (attemptFailed uid part (Suc retries) (HttpStatus code) w)
         | Throws e \<Rightarrow>
             uploadPart_loop uid part (Suc retries) ts (attemptFailed uid part (Suc retries) e w)))"

text \<open>
  \<open>uploadPart\<close>: \<open>registered\<close> says whether \<open>uploadStates\<close> still holds the upload when the part
  starts; a part whose number already has an etag is skipped.
\<close>

definition uploadPart :: "string \<Rightarrow> bool \<Rightarrow> PartInfo \<Rightarrow> tick list \<Rightarrow> part_run \<Rightarrow> part_end \<times> part_run" where
  "uploadPart uid registered part ticks w =
     (if \<not> registered then (ReturnedFalse, w)
      else if partNumber part \<in> fst ` set (partETags (st w)) then (ReturnedTrue, w)
      else uploadPart_loop uid part 0 ticks w)"

text \<open>
  The parts run concurrently under a semaphore, and each writes to the shared state in one
  synchronized step at its end. \<open>runParts\<close> takes them in the order in which they end.
\<close>

fun runParts :: "string \<Rightarrow> (PartInfo \<times> bool \<times> tick list) list \<Rightarrow> part_run \<Rightarrow> part_end list \<times> part_run" where
  "runParts uid [] w = ([], w)"
| "runParts uid ((part, registered, ticks) # rest) w =
     (case uploadPart uid registered part ticks w of
        (r, w1) \<Rightarrow> (case runParts uid rest w1 of (rs, w2) \<Rightarrow> (r # rs, w2)))"

text \<open>
  \<open>performUpload\<close>, from the point where it has found the state and the job of the upload
  in the two registry maps: \<open>order\<close> lists the part indices in the order in which the parts end, and
  \<open>input index\<close> is what the part of that index observes. The value is \<open>None\<close> while a part
  has not returned; a cancelled job ends with the cancellation, an incomplete upload with
  the exception that lists the failed parts in ascending order, a complete one with the
  etags in the order of the part numbers.
\<close>

definition performUpload ::
  "string \<Rightarrow> string list \<Rightarrow> int \<Rightarrow> nat list \<Rightarrow> (nat \<Rightarrow> bool \<times> tick list) \<Rightarrow> part_run
     \<Rightarrow> (error + UploadResult) option \<times> part_run" where
  "performUpload uid urls fileSize order input w =
     (case runParts uid (map (\<lambda>i. (partInfo fileSize urls i, input i)) order) w of
        (results, w1) \<Rightarrow>
          if Running \<in> set results then (None, w1)
          else if CancelledFalse \<in> set results then (Some (Inl JobCancelled), w1)
          else if completedChunks_kt (st w1) \<noteq> int (length urls) then
            (Some (Inl (UploadIncomplete (sort (failedChunks (st w1))))),
             w1\<lparr> emitted := emitted w1
                   @ [(plainEvent ''upload-failed'' uid)
                        \<lparr> totalBytes_ev := Some (real_of_int fileSize),
                          errorMessage := Some (UploadIncomplete (sort (failedChunks (st w1)))) \<rparr>] \<rparr>)
          else
            (Some (Inr (UploadResult uid True (map snd (sort_key fst (partETags (st w1)))))),
             w1\<lparr> emitted := emitted w1
                   @ [(plainEvent ''upload-completed'' uid)
                        \<lparr> progress_ev := Some 1, bytesUploaded_ev := Some (real_of_int fileSize),
                          totalBytes_ev := Some (real_of_int fileSize) \<rparr>] \<rparr>))"

text \<open>The state \<open>startUpload\<close> creates for a file of \<open>fileSize\<close> bytes and \<open>n\<close> URLs, with nothing done.\<close>

definition freshRun :: "int \<Rightarrow> nat \<Rightarrow> part_run" where
  "freshRun fileSize n =
     \<lparr> st = \<lparr> totalBytes_kt = fileSize, bytesUploaded_kt = 0, completedChunks_kt = 0,
              totalChunks = int n, partETags = [], failedChunks = [] \<rparr>,
       slept = [], emitted = [] \<rparr>"


section \<open>Runs of an upload\<close>

text \<open>
  A Swift session takes the completions of its tasks one after the other, each an index
  with what the task ended with, in any order.
\<close>

definition deliver :: "(nat \<Rightarrow> error option) \<Rightarrow> (nat \<times> task_outcome) list \<Rightarrow> UploadSession \<Rightarrow> UploadSession" where
  "deliver prep events s = fold (\<lambda>ev. urlSession_didCompleteWithError prep (fst ev) (snd ev)) events s"

text \<open>A task ended with a 2xx response that carries the etag (Swift); an attempt did (Kotlin).\<close>

definition respondedWith :: "task_outcome \<Rightarrow> string \<Rightarrow> bool" where
  "respondedWith ended etag =
     (case ended of
        HTTPResponse statusCode allHeaderFields \<Rightarrow>
          200 \<le> statusCode \<and> statusCode \<le> 299 \<and> etag = responseEtag allHeaderFields
      | _ \<Rightarrow> False)"

definition succeeded :: "tick \<Rightarrow> string \<Rightarrow> bool" where
  "succeeded t etag =
     (case outcome t of
        Throws e \<Rightarrow> False
      | Responds code headers \<Rightarrow> 200 \<le> code \<and> code \<le> 299 \<and> etag = responseEtag_kt headers)"

text \<open>
  The invariant of a Swift session of \<open>n\<close> chunks, for a relation \<open>Q\<close> between chunk indices
  and etags: the etag array has \<open>n\<close> entries, active and completed indices are below \<open>n\<close>,
  the etag stored for a completed chunk is related to its index, a resumed continuation
  has set the flag, and a successful result holds the etag array of a session whose chunks
  are all complete.
\<close>

definition consistent :: "nat \<Rightarrow> (nat \<Rightarrow> string \<Rightarrow> bool) \<Rightarrow> UploadSession \<Rightarrow> bool" where
  "consistent n Q s \<longleftrightarrow>
     length (uploadUrls s) = n \<and> length (etags s) = n
     \<and> list_all (\<lambda>i. i < n) (activeTasks s)
     \<and> (\<forall>k. k \<in> completedChunks s \<longrightarrow> k < n \<and> Q k (etags s ! k))
     \<and> (continuation s \<noteq> None \<longrightarrow> hasResumedContinuation s)
     \<and> (\<forall>r. continuation s = Some (Inr r) \<and> r_success r \<longrightarrow>
            state s = completed \<and> r_etags r = etags s \<and> (\<forall>k<n. k \<in> completedChunks s))"

text \<open>
  The invariant of a Kotlin job, for a relation \<open>Q\<close> between part numbers and etags: no part
  number has two etags, the count of completed chunks is the number of etags, and every
  stored etag is related to its part number.
\<close>

definition etagsFrom :: "(int \<Rightarrow> string \<Rightarrow> bool) \<Rightarrow> part_run \<Rightarrow> bool" where
  "etagsFrom Q w \<longleftrightarrow>
     distinct (map fst (partETags (st w)))
     \<and> completedChunks_kt (st w) = int (length (partETags (st w)))
     \<and> list_all (\<lambda>p. Q (fst p) (snd p)) (partETags (st w))"

section \<open>Concrete inputs\<close>

text \<open>A file system in which every path decodes to itself and names a readable file of \<open>n\<close> bytes.\<close>

definition demo_env :: "int \<Rightarrow> file_env" where
  "demo_env n = \<lparr> removingPercentEncoding = Some, urlDecode = Some,
       stat = (\<lambda>p. \<lparr> f_exists = True, f_canRead = True, f_size = Some n \<rparr>) \<rparr>"

definition three_urls :: "string list" where
  "three_urls = [''https://s3/p1'', ''https://s3/p2'', ''https://s3/p3'']"

definition idleUploader :: Uploader where
  "idleUploader = \<lparr> currentUpload = None, isNetworkAvailable = True, eventListeners = Map.empty,
                    delivered = [] \<rparr>"

definition idleUploader_kt :: Uploader_kt where
  "idleUploader_kt = \<lparr> activeUploads = Map.empty, uploadStates = Map.empty,
                       eventListeners_kt = Map.empty, isNetworkAvailable_kt = True, delivered_kt = [] \<rparr>"

text \<open>A preparation that never throws.\<close>

definition prepOk :: "nat \<Rightarrow> error option" where
  "prepOk index = None"

text \<open>
  A Swift uploader with the upload \<open>up\<close> of an 11 MiB file in three parts running; the same
  after \<open>pauseUpload\<close>; and the same after the network monitor has then reported a loss.
\<close>

definition started :: Uploader where
  "started = snd (startUpload (demo_env 11534336) prepOk ''up'' ''f.bin'' three_urls None idleUploader)"

definition userPaused :: Uploader where
  "userPaused = snd (pauseUpload ''up'' started)"

definition offline :: Uploader where
  "offline = pathUpdateHandler prepOk False userPaused"

text \<open>A Kotlin uploader with the upload \<open>up\<close> of the same file registered.\<close>

definition started_kt :: Uploader_kt where
  "started_kt = snd (startUpload_kt (demo_env 11534336) ''up'' ''f.bin'' three_urls None idleUploader_kt)"

text \<open>
  The same two uploads, started after the callback \<open>7\<close> has been registered for the event
  type \<open>upload-cancelled\<close>.
\<close>

definition watched :: Uploader where
  "watched = snd (startUpload (demo_env 11534336) prepOk ''up'' ''f.bin'' three_urls None
                    (idleUploader\<lparr> eventListeners := addListener ''upload-cancelled'' 7 Map.empty \<rparr>))"

definition watched_kt :: Uploader_kt where
  "watched_kt = snd (startUpload_kt (demo_env 11534336) ''up'' ''f.bin'' three_urls None
                       (idleUploader_kt\<lparr> eventListeners_kt := addListener ''upload-cancelled'' 7 Map.empty \<rparr>))"

text \<open>A started Swift session of one chunk, and an etag as a server sends it, in quotes.\<close>

definition oneChunk :: UploadSession where
  "oneChunk = start prepOk (newSession ''up'' [''https://s3/p1''] 3 100)"

definition quotedEtag :: string where
  "quotedEtag = CHR 0x22 # ''abc'' @ [CHR 0x22]"

text \<open>A file system whose files exist and have \<open>n\<close> bytes but cannot be read.\<close>

definition unreadable_env :: "int \<Rightarrow> file_env" where
  "unreadable_env n = \<lparr> removingPercentEncoding = Some, urlDecode = Some,
       stat = (\<lambda>p. \<lparr> f_exists = True, f_canRead = False, f_size = Some n \<rparr>) \<rparr>"

text \<open>Ticks of a job that is neither paused nor cancelled: an attempt that throws, one that gets a response.\<close>

definition throwing :: "error \<Rightarrow> tick" where
  "throwing e = \<lparr> paused_now = False, active_now = True, outcome = Throws e \<rparr>"

definition responding :: "int \<Rightarrow> (string \<times> string) list \<Rightarrow> tick" where
  "responding code headers = \<lparr> paused_now = False, active_now = True, outcome = Responds code headers \<rparr>"

text \<open>
  Three parts of a Kotlin upload. In \<open>flaky\<close> part 2 fails twice and then succeeds; in
  \<open>broken\<close> part 2 fails three times; the other parts succeed at once.
\<close>

definition flaky :: "nat \<Rightarrow> bool \<times> tick list" where
  "flaky index =
     (True,
      if index = 1
      then [throwing (TransportError ''reset''), responding 503 [], responding 200 [(''ETag'', ''e2'')]]
      else if index = 0 then [responding 200 [(''ETag'', ''e1'')]]
      else [responding 200 [(''ETag'', ''e3'')]])"

definition broken :: "nat \<Rightarrow> bool \<times> tick list" where
  "broken index =
     (True,
      if index = 1
      then [throwing (TransportError ''reset''), responding 503 [], throwing (TransportError ''reset'')]
      else if index = 0 then [responding 200 [(''ETag'', ''e1'')]]
      else [responding 200 [(''ETag'', ''e3'')]])"

text \<open>The three tasks of a Swift upload end with 200 in the order 3, 1, 2.\<close>

definition threeResponses :: "(nat \<times> task_outcome) list" where
  "threeResponses =
     [(2, HTTPResponse 200 [''Etag'' \<mapsto> ''e3'']),
      (0, HTTPResponse 200 [''Etag'' \<mapsto> ''e1'']),
      (1, HTTPResponse 200 [''Etag'' \<mapsto> ''e2''])]"

section \<open>The part plan (Swift)\<close>

lemma contiguous_append:
  "contiguous a (ps @ qs) b \<longleftrightarrow> (\<exists>m. contiguous a ps m \<and> contiguous m qs b)"
  by (induction ps arbitrary: a) auto

lemma contiguous_sum: "contiguous a ps b \<Longrightarrow> a + sum_list (map snd ps) = b"
  by (induction ps arbitrary: a) fastforce+

lemma contiguous_uniform:
  "0 \<le> c \<Longrightarrow> contiguous 0 (map (\<lambda>i. (int i * c, c)) [0..<k]) (int k * c)"
  by (induction k) (auto simp: contiguous_append algebra_simps)

lemma calculatedChunkSize_covers:
  assumes "0 < n"
  shows "fileSize \<le> int n * calculatedChunkSize fileSize n"
proof -
  have "real_of_int fileSize / real n \<le> of_int (calculatedChunkSize fileSize n)"
    by (simp add: calculatedChunkSize_def)
  then have "real_of_int fileSize \<le> real n * of_int (calculatedChunkSize fileSize n)"
    using assms by (simp add: field_simps)
  then have "real_of_int fileSize \<le> real_of_int (int n * calculatedChunkSize fileSize n)"
    by simp
  then show ?thesis by linarith
qed

lemma calculatedChunkSize_tight:
  assumes "0 < n"
  shows "int n * (calculatedChunkSize fileSize n - 1) < fileSize"
proof -
  have "of_int (calculatedChunkSize fileSize n) - 1 < real_of_int fileSize / real n"
    unfolding calculatedChunkSize_def by linarith
  then have "real n * (of_int (calculatedChunkSize fileSize n) - 1) < real_of_int fileSize"
    using assms by (simp add: field_simps)
  then have "real_of_int (int n * (calculatedChunkSize fileSize n - 1)) < real_of_int fileSize"
    by simp
  then show ?thesis by linarith
qed

lemma init_Inr:
  assumes "UploadSession_init env uid filePath urls parallel = Inr s"
  shows "\<exists>fileSize. s = newSession uid urls parallel fileSize
            \<and> (int (length urls) - 1) * minimumChunkSize \<le> fileSize"
  using assms
  by (auto simp: UploadSession_init_def Let_def split: option.splits if_splits)

lemma newSession_fits:
  assumes n: "urls \<noteq> []" "length urls \<le> 5242882"
      and ok: "(int (length urls) - 1) * minimumChunkSize \<le> fileSize"
  shows "(int (length urls) - 1) * chunkSize (newSession uid urls parallel fileSize) \<le> fileSize"
proof (cases "calculatedChunkSize fileSize (length urls) \<le> minimumChunkSize")
  case True
  then show ?thesis using ok by (simp add: newSession_def max_def)
next
  case False
  define c where "c = calculatedChunkSize fileSize (length urls)"
  define k where "k = int (length urls)"
  have c: "chunkSize (newSession uid urls parallel fileSize) = c"
    using False by (simp add: newSession_def c_def max_def)
  have "0 < length urls" using n by simp
  from calculatedChunkSize_tight [OF this, of fileSize]
  have "k * c - k < fileSize" by (simp add: c_def k_def algebra_simps)
  moreover have "k - 1 \<le> c"
    using False n(2) by (simp add: c_def k_def minimumChunkSize_def)
  ultimately have "(k - 1) * c \<le> fileSize" by (simp add: algebra_simps)
  then show ?thesis by (simp add: c k_def)
qed

lemma partPlan_split:
  assumes n: "uploadUrls s \<noteq> []"
      and fit: "(int (length (uploadUrls s)) - 1) * chunkSize s \<le> totalBytes s"
      and cover: "totalBytes s \<le> int (length (uploadUrls s)) * chunkSize s"
      and pos: "0 \<le> chunkSize s"
  shows "partPlan s = map (\<lambda>i. (int i * chunkSize s, chunkSize s)) [0..<length (uploadUrls s) - 1]
           @ [((int (length (uploadUrls s)) - 1) * chunkSize s,
               totalBytes s - (int (length (uploadUrls s)) - 1) * chunkSize s)]"
proof -
  obtain m where m: "length (uploadUrls s) = Suc m"
    using n by (cases "uploadUrls s") auto
  have early: "chunkLength s i = chunkSize s" if "i < m" for i
  proof -
    have "int i + 1 \<le> int m" using that by simp
    then have "(int i + 1) * chunkSize s \<le> int m * chunkSize s"
      using pos by (rule mult_right_mono)
    with fit m show ?thesis
      by (simp add: chunkLength_def chunkOffset_def algebra_simps)
  qed
  have last: "chunkLength s m = totalBytes s - int m * chunkSize s"
    using cover m by (simp add: chunkLength_def chunkOffset_def algebra_simps)
  show ?thesis
    using early last by (simp add: partPlan_def m chunkOffset_def)
qed

text \<open>
  Claim C1, as the code has it. The constructor refuses a file smaller than
  \<open>(urlCount - 1) * 5 MiB\<close>, so a plan exists only for accepted uploads. For every upload
  the constructor accepts, with at least one and at most 5242882 URLs and a file of fewer
  than \<open>2^53\<close> bytes, the plan has one part per URL, the parts partition \<open>[0, totalBytes)\<close> with no gap and no overlap, their
  sizes add up to \<open>totalBytes\<close>, \<open>chunkSize = max(5 MiB, ceil(totalBytes / urlCount))\<close>,
  every part but the last has size \<open>chunkSize\<close> at offset \<open>index * chunkSize\<close>, and the
  last part takes the remainder.
\<close>

theorem part_plan_partitions:
  assumes init: "UploadSession_init env uid filePath urls parallel = Inr s"
      and n: "urls \<noteq> []" "length urls \<le> 5242882"
      and below: "totalBytes s < 2 ^ 53"
  shows "length (partPlan s) = length urls
       \<and> contiguous 0 (partPlan s) (totalBytes s)
       \<and> sum_list (map snd (partPlan s)) = totalBytes s
       \<and> chunkSize s = max minimumChunkSize \<lceil>real_of_int (totalBytes s) / real (length urls)\<rceil>
       \<and> (\<forall>i. i + 1 < length urls \<longrightarrow> partPlan s ! i = (int i * chunkSize s, chunkSize s))
       \<and> partPlan s ! (length urls - 1) =
            ((int (length urls) - 1) * chunkSize s, totalBytes s - (int (length urls) - 1) * chunkSize s)"
proof -
  from init_Inr [OF init] obtain fileSize where
    s: "s = newSession uid urls parallel fileSize" and
    ok: "(int (length urls) - 1) * minimumChunkSize \<le> fileSize" by blast
  have u: "uploadUrls s = urls" and t: "totalBytes s = fileSize"
    and c: "chunkSize s = max (calculatedChunkSize fileSize (length urls)) minimumChunkSize"
    by (simp_all add: s newSession_def)
  have pos: "0 \<le> chunkSize s" by (simp add: c minimumChunkSize_def max_def)
  have fit: "(int (length (uploadUrls s)) - 1) * chunkSize s \<le> totalBytes s"
    using newSession_fits [OF n ok, of uid parallel] u t unfolding s by simp
  have "fileSize \<le> int (length urls) * calculatedChunkSize fileSize (length urls)"
    using n(1) by (intro calculatedChunkSize_covers) simp
  also have "\<dots> \<le> int (length urls) * chunkSize s"
    by (rule mult_left_mono) (simp_all add: c)
  finally have cover: "totalBytes s \<le> int (length (uploadUrls s)) * chunkSize s"
    by (simp add: u t)
  have un: "uploadUrls s \<noteq> []" using n(1) u by simp
  note plan = partPlan_split [OF un fit cover pos]
  have len: "length (partPlan s) = length urls"
    by (simp add: partPlan_def u)
  have cont: "contiguous 0 (partPlan s) (totalBytes s)"
  proof -
    have "contiguous 0 (map (\<lambda>i. (int i * chunkSize s, chunkSize s)) [0..<length urls - 1])
            (int (length urls - 1) * chunkSize s)"
      using pos by (rule contiguous_uniform)
    moreover have "int (length urls - 1) = int (length urls) - 1" using n(1) by (cases urls) auto
    moreover have "0 \<le> totalBytes s - (int (length urls) - 1) * chunkSize s" using fit u by simp
    ultimately show ?thesis
      unfolding plan u contiguous_append by (intro exI [of _ "(int (length urls) - 1) * chunkSize s"]) simp
  qed
  have sum: "sum_list (map snd (partPlan s)) = totalBytes s"
    using contiguous_sum [OF cont] by simp
  have early: "\<forall>i. i + 1 < length urls \<longrightarrow> partPlan s ! i = (int i * chunkSize s, chunkSize s)"
    unfolding plan u by (auto simp: nth_append)
  have last: "partPlan s ! (length urls - 1) =
            ((int (length urls) - 1) * chunkSize s, totalBytes s - (int (length urls) - 1) * chunkSize s)"
    unfolding plan u by (simp add: nth_append)
  have cs: "chunkSize s = max minimumChunkSize \<lceil>real_of_int (totalBytes s) / real (length urls)\<rceil>"
    by (simp add: c t calculatedChunkSize_def max.commute)
  from len cont sum cs early last show ?thesis by blast
qed

theorem part_plan_partitions_witness:
  "UploadSession_init (demo_env 11534336) ''up'' ''f.bin'' three_urls 3
      = Inr (newSession ''up'' three_urls 3 11534336)
   \<and> three_urls \<noteq> [] \<and> length three_urls \<le> 5242882
   \<and> totalBytes (newSession ''up'' three_urls 3 11534336) < 2 ^ 53
   \<and> length (partPlan (newSession ''up'' three_urls 3 11534336)) = 3
   \<and> contiguous 0 (partPlan (newSession ''up'' three_urls 3 11534336)) 11534336
   \<and> partPlan (newSession ''up'' three_urls 3 11534336) ! 2 = (10485760, 1048576)"
proof -
  have i: "UploadSession_init (demo_env 11534336) ''up'' ''f.bin'' three_urls 3
      = Inr (newSession ''up'' three_urls 3 11534336)"
    by (simp add: UploadSession_init_def demo_env_def three_urls_def minimumChunkSize_def)
  have n: "three_urls \<noteq> []" "length three_urls \<le> 5242882"
    by (simp_all add: three_urls_def)
  have c: "chunkSize (newSession ''up'' three_urls 3 11534336) = 5242880"
    by (simp add: newSession_def three_urls_def calculatedChunkSize_def minimumChunkSize_def)
  have t: "totalBytes (newSession ''up'' three_urls 3 11534336) = 11534336"
    by (simp add: newSession_def)
  have l: "length three_urls = 3"
    by (simp add: three_urls_def)
  have below: "totalBytes (newSession ''up'' three_urls 3 11534336) < 2 ^ 53"
    by (simp add: t)
  from part_plan_partitions [OF i n below]
  have "length (partPlan (newSession ''up'' three_urls 3 11534336)) = 3"
    and "contiguous 0 (partPlan (newSession ''up'' three_urls 3 11534336)) 11534336"
    and "partPlan (newSession ''up'' three_urls 3 11534336) ! 2 = (10485760, 1048576)"
    by (simp_all add: c t l)
  with i n below show ?thesis by simp
qed

text \<open>
  Claim C1 as stated fails at \<open>totalBytes = 8 MiB\<close>, \<open>urlCount = 3\<close>: the constructor throws,
  and the ranges its formula gives there end with a part of negative size.
\<close>

theorem part_plan_counterexample:
  "UploadSession_init (demo_env 8388608) ''up'' ''f.bin'' three_urls 3
      = Inl (FileTooSmall 8388608 3 10485760)
   \<and> partPlan (newSession ''up'' three_urls 3 8388608)
      = [(0, 5242880), (5242880, 3145728), (10485760, - 2097152)]
   \<and> \<not> contiguous 0 (partPlan (newSession ''up'' three_urls 3 8388608)) 8388608"
  by (simp add: UploadSession_init_def demo_env_def three_urls_def minimumChunkSize_def
      newSession_def calculatedChunkSize_def partPlan_def chunkOffset_def chunkLength_def upt_rec)

text \<open>
  Kotlin's \<open>performUpload\<close> cuts the file proportionally instead: for every file size and
  at least one URL its parts partition \<open>[0, fileSize)\<close> as well, one part per URL, but no
  part has the size \<open>max(5 MiB, ceil(fileSize / n))\<close> of the Swift plan.
\<close>

lemma contiguous_telescope:
  assumes "\<And>i. o' i \<le> o' (Suc i)"
  shows "contiguous (o' 0) (map (\<lambda>i. (o' i, o' (Suc i) - o' i)) [0..<k]) (o' k)"
  using assms by (induction k) (auto simp: contiguous_append)

lemma partInfo_range:
  assumes "i < length urls"
  shows "offset (partInfo fileSize urls i) = (fileSize * int i) div int (length urls)"
    and "size_kt (partInfo fileSize urls i)
          = (fileSize * int (Suc i)) div int (length urls) - (fileSize * int i) div int (length urls)"
proof -
  show "offset (partInfo fileSize urls i) = (fileSize * int i) div int (length urls)"
    by (simp add: partInfo_def Let_def)
  have "urls \<noteq> []" using assms by auto
  then have "fileSize * int (length urls) div int (length urls) = fileSize"
    by simp
  moreover have "int (Suc i) = int (length urls)" if "i = length urls - 1"
    using that assms by simp
  ultimately show "size_kt (partInfo fileSize urls i)
          = (fileSize * int (Suc i)) div int (length urls) - (fileSize * int i) div int (length urls)"
    by (auto simp: partInfo_def Let_def algebra_simps)
qed

lemma parts_kt_partition:
  assumes "0 \<le> fileSize"
  shows "length (parts_kt fileSize urls) = length urls
       \<and> (urls \<noteq> [] \<longrightarrow> contiguous 0 (map (\<lambda>p. (offset p, size_kt p)) (parts_kt fileSize urls)) fileSize)"
proof -
  define o' where "o' = (\<lambda>i. (fileSize * int i) div int (length urls))"
  have mono: "o' i \<le> o' (Suc i)" for i
  proof (cases "urls = []")
    case True
    then show ?thesis by (simp add: o'_def)
  next
    case False
    then show ?thesis
      unfolding o'_def using assms by (intro zdiv_mono1) (simp_all add: mult_left_mono)
  qed
  have eq: "map (\<lambda>p. (offset p, size_kt p)) (parts_kt fileSize urls)
          = map (\<lambda>i. (o' i, o' (Suc i) - o' i)) [0..<length urls]"
    by (simp add: parts_kt_def o'_def partInfo_range)
  have cont: "contiguous (o' 0) (map (\<lambda>i. (o' i, o' (Suc i) - o' i)) [0..<length urls]) (o' (length urls))"
    using mono by (rule contiguous_telescope)
  have first: "o' 0 = 0" by (simp add: o'_def)
  have "contiguous 0 (map (\<lambda>p. (offset p, size_kt p)) (parts_kt fileSize urls)) fileSize"
    if "urls \<noteq> []"
  proof -
    have "o' (length urls) = fileSize"
      using that by (simp add: o'_def)
    with cont first show ?thesis
      unfolding eq by simp
  qed
  moreover have "length (parts_kt fileSize urls) = length urls"
    by (simp add: parts_kt_def)
  ultimately show ?thesis by blast
qed

lemma parts_kt_example:
  "map (\<lambda>p. (partNumber p, offset p, size_kt p)) (parts_kt 11534336 three_urls)
     = [(1, 0, 3844778), (2, 3844778, 3844779), (3, 7689557, 3844779)]"
  by (simp add: parts_kt_def partInfo_def three_urls_def Let_def upt_rec)

text \<open>
  The bound on the number of URLs in \<open>part_plan_partitions\<close> is needed: with 5242883 URLs
  the constructor accepts a file whose last part then has the size \<open>-1\<close>.
\<close>

lemma part_plan_many_urls:
  "UploadSession_init (demo_env 27487806423041) ''up'' ''f.bin'' (replicate 5242883 ''u'') 3
     = Inr (newSession ''up'' (replicate 5242883 ''u'') 3 27487806423041)
   \<and> chunkSize (newSession ''up'' (replicate 5242883 ''u'') 3 27487806423041) = 5242881
   \<and> partPlan (newSession ''up'' (replicate 5242883 ''u'') 3 27487806423041) ! 5242882
     = (27487806423042, - 1)"
  by (simp add: UploadSession_init_def demo_env_def minimumChunkSize_def newSession_def
      calculatedChunkSize_def partPlan_def chunkOffset_def chunkLength_def)

section \<open>Listeners\<close>

lemma callbacksOf_addListener:
  "callbacksOf (addListener t cb ls) t' = (if t' = t then callbacksOf ls t @ [cb] else callbacksOf ls t')"
  by (simp add: callbacksOf_def addListener_def Let_def split: option.splits)

lemma callbacksOf_fold_addListener:
  "callbacksOf (fold (addListener t) cbs ls) t' = (if t' = t then callbacksOf ls t @ cbs else callbacksOf ls t')"
proof (induction cbs arbitrary: ls)
  case Nil
  show ?case by simp
next
  case (Cons cb cbs)
  show ?case by (simp add: Cons.IH callbacksOf_addListener)
qed

text \<open>
  Claim C10. Registering the callbacks \<open>cbs\<close> one after the other under the type \<open>t\<close> appends
  them, in that order, to the callbacks already registered under \<open>t\<close> and changes no other
  type. An emitted event is delivered, unchanged, to every callback under its own type and
  then to every callback under \<open>all\<close>. \<open>removeListener t\<close> leaves no callback under \<open>t\<close> and
  changes no other type, \<open>all\<close> included.
\<close>

theorem listeners_append_and_fan_out:
  "callbacksOf (fold (addListener t) cbs ls) t'
      = (if t' = t then callbacksOf ls t @ cbs else callbacksOf ls t')
   \<and> map fst (emitEvent e ls) = callbacksOf ls (type e) @ callbacksOf ls ''all''
   \<and> map snd (emitEvent e ls)
      = replicate (length (callbacksOf ls (type e)) + length (callbacksOf ls ''all'')) e
   \<and> callbacksOf (removeListener t ls) t' = (if t' = t then [] else callbacksOf ls t')"
proof -
  have "map fst (emitEvent e ls) = callbacksOf ls (type e) @ callbacksOf ls ''all''"
    by (simp add: emitEvent_def callbacksOf_def comp_def split: option.splits)
  moreover have "map snd (emitEvent e ls)
      = replicate (length (callbacksOf ls (type e)) + length (callbacksOf ls ''all'')) e"
    by (simp add: emitEvent_def callbacksOf_def comp_def replicate_add map_replicate_const
        split: option.splits)
  moreover have "callbacksOf (removeListener t ls) t' = (if t' = t then [] else callbacksOf ls t')"
    by (simp add: callbacksOf_def removeListener_def)
  ultimately show ?thesis
    using callbacksOf_fold_addListener [of t cbs ls t'] by blast
qed

text \<open>Two callbacks under \<open>upload-paused\<close> and one under \<open>all\<close>: the event reaches them in this order.\<close>

lemma listeners_example:
  "map fst (emitEvent (plainEvent ''upload-paused'' ''up'')
      (addListener ''all'' 7 (addListener ''upload-paused'' 2 (addListener ''upload-paused'' 1 Map.empty))))
   = [1, 2, 7]"
  by (simp add: emitEvent_def addListener_def plainEvent_def Let_def)

section \<open>Parallelism\<close>

text \<open>Kotlin clamps the requested parallelism into \<open>[1, 10]\<close>, with 3 when none is given.\<close>

lemma parallel_kt_range: "1 \<le> parallel_kt m \<and> parallel_kt m \<le> 10"
  by (simp add: parallel_kt_def coerceIn_def split: option.splits)

lemma parallel_kt_examples:
  "parallel_kt (Some 0) = 1 \<and> parallel_kt (Some 25) = 10 \<and> parallel_kt None = 3"
  by (simp add: parallel_kt_def coerceIn_def toInt_def)

text \<open>
  Claim C6 on the Swift side: \<open>startUpload\<close> passes \<open>Int(maxParallel ?? 3)\<close> on as it is. With
  \<open>maxParallel = 0\<close> the session keeps 0, starts no task and stays in \<open>uploading\<close> with its
  continuation never resumed; with \<open>maxParallel = 25\<close> and twelve URLs, twelve tasks run at
  once.
\<close>

theorem maxParallel_not_clamped_swift:
  "map_option (\<lambda>s. (maxParallel s, activeTasks s, state s, continuation s))
     (currentUpload (snd (startUpload (demo_env 11534336) prepOk ''up'' ''f.bin'' three_urls
                            (Some 0) idleUploader)))
     = Some (0, [], uploading, None)
   \<and> map_option (\<lambda>s. (maxParallel s, activeTasks s, state s, continuation s))
     (currentUpload (snd (startUpload (demo_env 62914560) prepOk ''up'' ''f.bin'' (replicate 12 ''u'')
                            (Some 25) idleUploader)))
     = Some (25, [0, 1, 2, 3, 4, 5, 6, 7, 8, 9, 10, 11], uploading, None)"
  by (simp add: startUpload_def idleUploader_def UploadSession_init_def demo_env_def three_urls_def
      minimumChunkSize_def toInt_def newSession_def start_def uploadNextChunks_def onQueue_def
      emit_def Let_def getNextChunkIndex_def uploadChunk_def upt_rec calculatedChunkSize_def
      uploadNextChunks_loop.simps prepOk_def)

section \<open>Evaluation on concrete inputs\<close>

lemmas swift_eval =
  startUpload_def idleUploader_def UploadSession_init_def demo_env_def three_urls_def
  minimumChunkSize_def toInt_def newSession_def start_def uploadNextChunks_def onQueue_def
  emit_def Let_def getNextChunkIndex_def uploadChunk_def upt_rec calculatedChunkSize_def
  uploadNextChunks_loop.simps prepOk_def pauseUpload_def resumeUpload_def pathUpdateHandler_def
  pause_def resume_def currentSession_def emitEvent_def plainEvent_def complete_def fail_def
  started_def userPaused_def offline_def oneChunk_def quotedEtag_def unreadable_env_def
  urlSession_didCompleteWithError_def chunkFailed_def chunkSucceeded_def responseEtag_def
  getUploadState_def
  cancelUpload_def

lemmas kotlin_eval =
  startUpload_kt_def idleUploader_kt_def demo_env_def three_urls_def Let_def emit_kt_def
  emitEvent_def plainEvent_def cleanup_def removePrefix_def started_kt_def quotedEtag_def
  unreadable_env_def responseEtag_kt_def header_def lowercase_def trim_quote_def
  performUpload_def uploadPart_def partUploaded_def attemptFailed_def MAX_RETRIES_def
  partInfo_def freshRun_def

section \<open>Pause, resume and the network\<close>

text \<open>
  Claim C2 as stated fails: after \<open>pauseUpload\<close> has paused the upload, a network loss leaves
  it paused and the following restore sets it to \<open>uploading\<close> again.
\<close>

theorem network_restore_overrides_user_pause:
  "map_option state (currentUpload started) = Some uploading
   \<and> map_option state (currentUpload userPaused) = Some paused
   \<and> map_option state (currentUpload offline) = Some paused
   \<and> map_option (\<lambda>s. (state s, isPaused s)) (currentUpload (pathUpdateHandler prepOk True offline))
        = Some (uploading, False)"
  by (simp add: swift_eval)

lemma getNextChunkIndex_None:
  "getNextChunkIndex s = None \<longleftrightarrow>
     (\<forall>i<length (uploadUrls s). i \<in> completedChunks s \<or> i \<in> set (activeTasks s))"
  by (auto simp: getNextChunkIndex_def find_None_iff)

text \<open>
  While a chunk is incomplete and no preparation throws, the loop of \<open>uploadNextChunks\<close>
  leaves the state at \<open>uploading\<close>.
\<close>

lemma loop_keeps_uploading:
  assumes "\<forall>i. prep i = None" "state s = uploading"
      and "\<exists>i<length (uploadUrls s). i \<notin> completedChunks s"
  shows "state (uploadNextChunks_loop prep s) = uploading
       \<and> isPaused (uploadNextChunks_loop prep s) = isPaused s"
  using assms
proof (induction prep s rule: uploadNextChunks_loop.induct)
  case (1 prep s)
  show ?case
  proof (cases "int (length (activeTasks s)) < maxParallel s")
    case False
    then have "uploadNextChunks_loop prep s = s"
      by (simp add: uploadNextChunks_loop.simps [of prep s])
    then show ?thesis using "1.prems"(2) by simp
  next
    case True
    show ?thesis
    proof (cases "getNextChunkIndex s")
      case None
      then have "activeTasks s \<noteq> []"
        using "1.prems"(3) by (auto simp: getNextChunkIndex_None)
      then have "uploadNextChunks_loop prep s = s"
        using True None by (simp add: uploadNextChunks_loop.simps [of prep s])
      then show ?thesis
        using "1.prems"(2) by simp
    next
      case (Some j)
      have p: "prep j = None" using "1.prems"(1) by simp
      have u: "uploadChunk prep j s = s\<lparr> activeTasks := activeTasks s @ [j] \<rparr>"
        by (simp add: uploadChunk_def p)
      have "state (uploadNextChunks_loop prep (uploadChunk prep j s)) = uploading
          \<and> isPaused (uploadNextChunks_loop prep (uploadChunk prep j s)) = isPaused (uploadChunk prep j s)"
      proof (rule "1.IH" [OF True Some p "1.prems"(1)])
        show "state (uploadChunk prep j s) = uploading"
          using "1.prems"(2) by (simp add: u)
        show "\<exists>i<length (uploadUrls (uploadChunk prep j s)). i \<notin> completedChunks (uploadChunk prep j s)"
          using "1.prems"(3) by (simp add: u)
      qed
      moreover have "uploadNextChunks_loop prep s = uploadNextChunks_loop prep (uploadChunk prep j s)"
        using True Some p by (simp add: uploadNextChunks_loop.simps [of prep s])
      ultimately show ?thesis
        by (simp add: u)
    qed
  qed
qed

lemma resume_paused:
  assumes "state s = paused" "\<not> spinning s" "\<forall>i. prep i = None"
      and "\<exists>i<length (uploadUrls s). i \<notin> completedChunks s"
  shows "state (resume prep s) = uploading \<and> \<not> isPaused (resume prep s)"
proof -
  let ?s = "s\<lparr> state := uploading, isPaused := False \<rparr>"
  have "resume prep s = uploadNextChunks_loop prep ?s"
    using assms(1,2) by (simp add: resume_def onQueue_def uploadNextChunks_def)
  moreover have "state (uploadNextChunks_loop prep ?s) = uploading
       \<and> isPaused (uploadNextChunks_loop prep ?s) = isPaused ?s"
    using assms(3,4) by (intro loop_keeps_uploading) simp_all
  ultimately show ?thesis by simp
qed

text \<open>
  Claim C2, as the code has it. The session keeps no reason for a pause. For every current
  session in state \<open>paused\<close>, whoever paused it (its queue not stuck, a chunk still
  incomplete, no chunk preparation throwing), the network monitor's report that the network
  is back after a loss resumes it exactly as the \<open>resumeUpload\<close> call does: the session is
  \<open>uploading\<close> and no longer paused.
\<close>

theorem network_restore_resumes_any_pause:
  assumes "currentUpload u = Some s" "state s = paused" "\<not> spinning s"
      and "\<not> isNetworkAvailable u" "\<forall>i. prep i = None"
      and "\<exists>i<length (uploadUrls s). i \<notin> completedChunks s"
  shows "currentUpload (pathUpdateHandler prep True u) = Some (resume prep s)
       \<and> currentUpload (snd (resumeUpload prep (uploadId s) u)) = Some (resume prep s)
       \<and> state (resume prep s) = uploading \<and> \<not> isPaused (resume prep s)"
  using assms resume_paused [of s prep]
  by (simp add: pathUpdateHandler_def resumeUpload_def currentSession_def emit_def Let_def)

theorem network_restore_resumes_any_pause_witness:
  "currentUpload offline = Some (pause (start prepOk (newSession ''up'' three_urls 3 11534336)))
   \<and> state (pause (start prepOk (newSession ''up'' three_urls 3 11534336))) = paused
   \<and> \<not> isNetworkAvailable offline
   \<and> currentUpload (pathUpdateHandler prepOk True offline)
       = Some (resume prepOk (pause (start prepOk (newSession ''up'' three_urls 3 11534336))))
   \<and> state (resume prepOk (pause (start prepOk (newSession ''up'' three_urls 3 11534336)))) = uploading"
proof -
  let ?s = "pause (start prepOk (newSession ''up'' three_urls 3 11534336))"
  have c: "currentUpload offline = Some ?s"
    by (simp add: swift_eval)
  have p: "state ?s = paused" and q: "\<not> spinning ?s"
    by (simp_all add: swift_eval)
  have n: "\<not> isNetworkAvailable offline"
    by (simp add: swift_eval)
  have ok: "\<forall>i. prepOk i = None"
    by (simp add: prepOk_def)
  have inc: "\<exists>i<length (uploadUrls ?s). i \<notin> completedChunks ?s"
    by (intro exI [of _ 0]) (simp add: swift_eval)
  from network_restore_resumes_any_pause [OF c p q n ok inc] c p n show ?thesis
    by simp
qed

section \<open>The registry: start, cancel, state\<close>

lemma currentSession_cleared: "currentSession uid (u\<lparr> currentUpload := None \<rparr>) = None"
  by (simp add: currentSession_def)

lemma currentSession_emit: "currentSession uid (emit e u) = currentSession uid u"
  by (simp add: currentSession_def emit_def)

lemma cancel_idempotent: "cancel (cancel s) = cancel s"
  by (simp add: cancel_def onQueue_def)

text \<open>
  What both platforms do: \<open>cancelUpload\<close> returns without an error for every id and every
  state of the uploader, also when no upload has the id, and afterwards \<open>getUploadState\<close>
  for the id fails with the not-found error. In Swift a second \<open>cancelUpload\<close> leaves the
  uploader as it is (as it does whenever no upload is current), and \<open>cancel()\<close> on a
  cancelled session is the identity. In Kotlin a second \<open>cancelUpload\<close> leaves the two
  registry maps as the first left them, without the id; what else it does is the subject of
  \<open>cancelUpload_kt_delivers\<close> below.
\<close>

lemma cancel_resolves_and_unregisters:
  "fst (cancelUpload uid u) = Inr ()
   \<and> getUploadState uid (snd (cancelUpload uid u)) = Inl NoActiveUpload
   \<and> cancelUpload uid (snd (cancelUpload uid u)) = (Inr (), snd (cancelUpload uid u))
   \<and> cancelUpload uid (u\<lparr> currentUpload := None \<rparr>) = (Inr (), u\<lparr> currentUpload := None \<rparr>)
   \<and> cancel (cancel s) = cancel s
   \<and> fst (cancelUpload_kt uid k) = Inr ()
   \<and> getUploadState_kt uid (snd (cancelUpload_kt uid k)) = Inl NoActiveUpload
   \<and> activeUploads (snd (cancelUpload_kt uid (snd (cancelUpload_kt uid k))))
       = activeUploads (snd (cancelUpload_kt uid k))
   \<and> uploadStates (snd (cancelUpload_kt uid (snd (cancelUpload_kt uid k))))
       = uploadStates (snd (cancelUpload_kt uid k))
   \<and> activeUploads (snd (cancelUpload_kt uid k)) = (activeUploads k)(uid := None)
   \<and> uploadStates (snd (cancelUpload_kt uid k)) = (uploadStates k)(uid := None)"
proof -
  have a: "fst (cancelUpload uid u) = Inr ()"
    by (simp add: cancelUpload_def split: option.splits)
  have b: "currentSession uid (snd (cancelUpload uid u)) = None"
    by (simp add: cancelUpload_def currentSession_cleared currentSession_emit split: option.splits)
  have c: "getUploadState uid (snd (cancelUpload uid u)) = Inl NoActiveUpload"
    by (simp add: getUploadState_def b)
  have d: "cancelUpload uid (snd (cancelUpload uid u)) = (Inr (), snd (cancelUpload uid u))"
    by (simp add: cancelUpload_def [of uid "snd (cancelUpload uid u)"] b)
  have e: "cancelUpload uid (u\<lparr> currentUpload := None \<rparr>) = (Inr (), u\<lparr> currentUpload := None \<rparr>)"
    by (simp add: cancelUpload_def currentSession_cleared)
  have f: "fst (cancelUpload_kt uid k) = Inr ()"
    by (simp add: cancelUpload_kt_def Let_def)
  have g: "activeUploads (snd (cancelUpload_kt uid k)) = (activeUploads k)(uid := None)" for k
    by (simp add: cancelUpload_kt_def Let_def cleanup_def emit_kt_def split: option.splits)
  have h: "uploadStates (snd (cancelUpload_kt uid k)) = (uploadStates k)(uid := None)" for k
    by (simp add: cancelUpload_kt_def Let_def cleanup_def emit_kt_def split: option.splits)
  have i: "getUploadState_kt uid (snd (cancelUpload_kt uid k)) = Inl NoActiveUpload"
    by (simp add: getUploadState_kt_def h)
  show ?thesis
    using a c d e f i cancel_idempotent [of s] by (simp add: g h)
qed

text \<open>
  Kotlin's \<open>cancelUpload\<close> emits \<open>upload-cancelled\<close> on every call, whether or not an upload
  has the id: each call makes the calls of \<open>emitEvent\<close> once more.
\<close>

lemma cancelUpload_kt_delivers:
  "delivered_kt (snd (cancelUpload_kt uid k))
     = delivered_kt k @ emitEvent (plainEvent ''upload-cancelled'' uid) (eventListeners_kt k)
   \<and> eventListeners_kt (snd (cancelUpload_kt uid k)) = eventListeners_kt k"
  by (simp add: cancelUpload_kt_def Let_def cleanup_def emit_kt_def split: option.splits)

text \<open>
  Claim C7 says that a repeated cancel on a cancelled upload is a no-op. In Kotlin it is
  not: with a callback registered for \<open>upload-cancelled\<close> and the upload \<open>up\<close> running, the
  first \<open>cancelUpload\<close> resolves, calls the callback once and removes the upload, so that
  \<open>getUploadState\<close> fails with the not-found error; the second resolves as well but calls
  the callback a second time, and leaves another uploader than the first did. In Swift,
  on the same input, the first cancel does the same, and the second returns with the
  uploader unchanged.
\<close>

theorem repeated_cancel_emits_again_kt:
  "activeUploads watched_kt ''up'' \<noteq> None
   \<and> fst (cancelUpload_kt ''up'' watched_kt) = Inr ()
   \<and> delivered_kt (snd (cancelUpload_kt ''up'' watched_kt))
       = [(7, plainEvent ''upload-cancelled'' ''up'')]
   \<and> getUploadState_kt ''up'' (snd (cancelUpload_kt ''up'' watched_kt)) = Inl NoActiveUpload
   \<and> fst (cancelUpload_kt ''up'' (snd (cancelUpload_kt ''up'' watched_kt))) = Inr ()
   \<and> delivered_kt (snd (cancelUpload_kt ''up'' (snd (cancelUpload_kt ''up'' watched_kt))))
       = [(7, plainEvent ''upload-cancelled'' ''up''), (7, plainEvent ''upload-cancelled'' ''up'')]
   \<and> snd (cancelUpload_kt ''up'' (snd (cancelUpload_kt ''up'' watched_kt)))
       \<noteq> snd (cancelUpload_kt ''up'' watched_kt)
   \<and> currentSession ''up'' watched \<noteq> None
   \<and> delivered (snd (cancelUpload ''up'' watched)) = [(7, plainEvent ''upload-cancelled'' ''up'')]
   \<and> getUploadState ''up'' (snd (cancelUpload ''up'' watched)) = Inl NoActiveUpload
   \<and> cancelUpload ''up'' (snd (cancelUpload ''up'' watched))
       = (Inr (), snd (cancelUpload ''up'' watched))"
proof -
  have k0: "activeUploads watched_kt ''up'' \<noteq> None"
    by (simp add: watched_kt_def kotlin_eval)
  have k1: "delivered_kt (snd (cancelUpload_kt ''up'' watched_kt))
       = [(7, plainEvent ''upload-cancelled'' ''up'')]"
    by (simp add: watched_kt_def kotlin_eval addListener_def cancelUpload_kt_def)
  have k2: "delivered_kt (snd (cancelUpload_kt ''up'' (snd (cancelUpload_kt ''up'' watched_kt))))
       = [(7, plainEvent ''upload-cancelled'' ''up''), (7, plainEvent ''upload-cancelled'' ''up'')]"
    by (simp add: watched_kt_def kotlin_eval addListener_def cancelUpload_kt_def)
  have k3: "getUploadState_kt ''up'' (snd (cancelUpload_kt ''up'' watched_kt)) = Inl NoActiveUpload"
    by (simp add: watched_kt_def kotlin_eval addListener_def cancelUpload_kt_def getUploadState_kt_def)
  have k4: "fst (cancelUpload_kt ''up'' k) = Inr ()" for k
    by (simp add: cancelUpload_kt_def Let_def)
  have k5: "snd (cancelUpload_kt ''up'' (snd (cancelUpload_kt ''up'' watched_kt)))
       \<noteq> snd (cancelUpload_kt ''up'' watched_kt)"
  proof
    assume "snd (cancelUpload_kt ''up'' (snd (cancelUpload_kt ''up'' watched_kt)))
       = snd (cancelUpload_kt ''up'' watched_kt)"
    then have "delivered_kt (snd (cancelUpload_kt ''up'' (snd (cancelUpload_kt ''up'' watched_kt))))
       = delivered_kt (snd (cancelUpload_kt ''up'' watched_kt))" by simp
    then show False unfolding k1 k2 by simp
  qed
  have s0: "currentSession ''up'' watched \<noteq> None"
    by (simp add: watched_def swift_eval addListener_def)
  have s1: "delivered (snd (cancelUpload ''up'' watched)) = [(7, plainEvent ''upload-cancelled'' ''up'')]"
    by (simp add: watched_def swift_eval addListener_def)
  have s2: "getUploadState ''up'' (snd (cancelUpload ''up'' watched)) = Inl NoActiveUpload"
    by (simp add: watched_def swift_eval addListener_def)
  have s3: "cancelUpload ''up'' (snd (cancelUpload ''up'' watched))
       = (Inr (), snd (cancelUpload ''up'' watched))"
    by (simp add: watched_def swift_eval addListener_def)
  from k0 k1 k2 k3 k4 k5 s0 s1 s2 s3 show ?thesis by blast
qed

text \<open>A running upload is cancelled: the state query then finds nothing, on either platform.\<close>

lemma cancel_running_example:
  "map_option (\<lambda>s. activeTasks s) (currentUpload started) = Some [0, 1, 2]
   \<and> getUploadState ''up'' (snd (cancelUpload ''up'' started)) = Inl NoActiveUpload
   \<and> getUploadState_kt ''up'' (snd (cancelUpload_kt ''up'' started_kt)) = Inl NoActiveUpload"
  by (simp add: swift_eval kotlin_eval cancelUpload_kt_def getUploadState_kt_def)




text \<open>
  The Kotlin \<open>catch\<close> runs \<open>cleanup(uploadId)\<close> for every exception of \<open>startUpload\<close>, the one
  for an upload already in progress included: a second start under a registered id removes
  the entries of the upload in progress.
\<close>

lemma duplicate_start_unregisters_kt:
  "activeUploads k uid \<noteq> None \<Longrightarrow>
     startUpload_kt env uid filePath urls maxPar k = (Inl (AlreadyInProgress uid), cleanup uid k)"
  by (simp add: startUpload_kt_def)

lemma duplicate_start_example_kt:
  "getUploadState_kt ''up'' started_kt \<noteq> Inl NoActiveUpload
   \<and> getUploadState_kt ''up''
        (snd (startUpload_kt (demo_env 11534336) ''up'' ''f.bin'' three_urls None started_kt))
      = Inl NoActiveUpload"
  by (simp add: kotlin_eval getUploadState_kt_def)

section \<open>Input checks\<close>

text \<open>
  What Swift's \<open>startUpload\<close> checks: an empty id, path or URL list, a path that does not
  decode, a missing file, a file without a size and a file too small for the number of
  URLs. A failed start leaves the uploader as it was.
\<close>

lemma startUpload_checks_swift:
  "startUpload env prep [] filePath urls maxPar u = (Inl EmptyUploadId, u)
   \<and> startUpload env prep (c # uid) [] urls maxPar u = (Inl EmptyFilePath, u)
   \<and> startUpload env prep (c # uid) (d # filePath) [] maxPar u = (Inl EmptyUploadUrls, u)"
  by (simp add: startUpload_def)

lemma startUpload_failure_keeps_state_swift:
  "fst (startUpload env prep uid filePath urls maxPar u) = Inl e \<Longrightarrow>
     snd (startUpload env prep uid filePath urls maxPar u) = u"
  by (auto simp: startUpload_def Let_def split: if_splits option.splits sum.splits)

lemma init_checks_swift:
  "removingPercentEncoding env filePath = Some p \<Longrightarrow> \<not> f_exists (stat env p) \<Longrightarrow>
     UploadSession_init env uid filePath urls parallel = Inl (FileNotFound p)"
  "removingPercentEncoding env filePath = Some p \<Longrightarrow> f_exists (stat env p) \<Longrightarrow>
     f_size (stat env p) = Some n \<Longrightarrow> n < (int (length urls) - 1) * minimumChunkSize \<Longrightarrow>
     UploadSession_init env uid filePath urls parallel
       = Inl (FileTooSmall n (length urls) ((int (length urls) - 1) * minimumChunkSize))"
  by (simp_all add: UploadSession_init_def)

text \<open>
  What Kotlin's \<open>startUpload\<close> checks: a registered id, a missing file, an unreadable file
  and an empty file. A failed start leaves nothing registered under the id.
\<close>

lemma startUpload_checks_kt:
  assumes "activeUploads k uid = None" "urlDecode env filePath = Some decoded"
  shows "\<not> f_exists (stat env (removePrefix ''file://'' decoded)) \<Longrightarrow>
           fst (startUpload_kt env uid filePath urls maxPar k)
             = Inl (FileNotFound (removePrefix ''file://'' decoded))"
    and "f_exists (stat env (removePrefix ''file://'' decoded)) \<Longrightarrow>
         \<not> f_canRead (stat env (removePrefix ''file://'' decoded)) \<Longrightarrow>
           fst (startUpload_kt env uid filePath urls maxPar k)
             = Inl (CannotReadFile (removePrefix ''file://'' decoded))"
    and "f_exists (stat env (removePrefix ''file://'' decoded)) \<Longrightarrow>
         f_canRead (stat env (removePrefix ''file://'' decoded)) \<Longrightarrow>
         f_size (stat env (removePrefix ''file://'' decoded)) = Some 0 \<Longrightarrow>
           fst (startUpload_kt env uid filePath urls maxPar k) = Inl FileIsEmpty"
  using assms by (simp_all add: startUpload_kt_def Let_def)

lemma startUpload_failure_unregistered_kt:
  "fst (startUpload_kt env uid filePath urls maxPar k) = Inl e \<Longrightarrow>
     activeUploads (snd (startUpload_kt env uid filePath urls maxPar k)) uid = None
     \<and> uploadStates (snd (startUpload_kt env uid filePath urls maxPar k)) uid = None"
  by (auto simp: startUpload_kt_def Let_def cleanup_def split: if_splits option.splits)

text \<open>
  Claim C5 on the code: inputs the claim calls invalid and the code accepts. Kotlin starts
  an upload with no URLs (and the job then reports success without etags), with an empty
  upload id, and with an 8 MiB file for three URLs; Swift starts an upload of an empty file
  with one URL, and of a file that cannot be read.
\<close>

theorem invalid_inputs_accepted:
  "fst (startUpload_kt (demo_env 11534336) ''up'' ''f.bin'' [] None idleUploader_kt) = Inr ()
   \<and> uploadStates (snd (startUpload_kt (demo_env 11534336) ''up'' ''f.bin'' [] None idleUploader_kt)) ''up''
       \<noteq> None
   \<and> fst (performUpload ''up'' [] 11534336 [] (\<lambda>i. (True, [])) (freshRun 11534336 0))
       = Some (Inr (UploadResult ''up'' True []))
   \<and> fst (startUpload_kt (demo_env 11534336) [] ''f.bin'' three_urls None idleUploader_kt) = Inr ()
   \<and> fst (startUpload_kt (demo_env 8388608) ''up'' ''f.bin'' three_urls None idleUploader_kt) = Inr ()
   \<and> fst (startUpload (demo_env 0) prepOk ''up'' ''f.bin'' [''https://s3/p1''] None idleUploader) = Inr ()
   \<and> fst (startUpload (unreadable_env 11534336) prepOk ''up'' ''f.bin'' three_urls None idleUploader)
       = Inr ()"
  by (simp add: swift_eval kotlin_eval)

section \<open>The etag of a part\<close>

text \<open>
  Kotlin: the header is found whatever the case of its name, the last value counts, the
  quotes around it are dropped, and a response without the header gives the empty string.
\<close>

lemma header_ignores_case:
  assumes "map lowercase n = map lowercase name"
  shows "header name (headers @ [(n, v)]) = Some v"
proof -
  define found where "found = filter (\<lambda>(n, v). map lowercase n = map lowercase name) (headers @ [(n, v)])"
  have "found = filter (\<lambda>(n, v). map lowercase n = map lowercase name) headers @ [(n, v)]"
    using assms by (simp add: found_def)
  then have "found \<noteq> []" and "last found = (n, v)"
    by simp_all
  then have "(case found of [] \<Rightarrow> None | fnd \<Rightarrow> Some (snd (last fnd))) = Some v"
    by (cases found) auto
  then show ?thesis
    unfolding header_def found_def .
qed

lemma header_absent:
  "\<forall>p \<in> set headers. map lowercase (fst p) \<noteq> map lowercase name \<Longrightarrow> header name headers = None"
proof -
  assume "\<forall>p \<in> set headers. map lowercase (fst p) \<noteq> map lowercase name"
  then have "filter (\<lambda>(n, v). map lowercase n = map lowercase name) headers = []"
    by (auto simp: filter_empty_conv)
  then show ?thesis by (simp add: header_def)
qed

lemma lowercase_ETag: "map lowercase ''ETag'' = ''etag''"
  by (simp add: lowercase_def)

lemma lowercase_etag: "map lowercase ''etag'' = ''etag''"
  by (simp add: lowercase_def)

lemma responseEtag_kt_found:
  "map lowercase n = ''etag'' \<Longrightarrow> responseEtag_kt (headers @ [(n, v)]) = trim_quote v"
  using header_ignores_case [of n "''ETag''" headers v, unfolded lowercase_ETag]
  by (simp add: responseEtag_kt_def)

lemma responseEtag_kt_absent:
  assumes "\<forall>p \<in> set headers. map lowercase (fst p) \<noteq> ''etag''"
  shows "responseEtag_kt headers = []"
proof -
  have "header ''ETag'' headers = None"
    using assms by (intro header_absent) (simp only: lowercase_ETag)
  moreover have "header ''etag'' headers = None"
    using assms by (intro header_absent) (simp only: lowercase_etag)
  ultimately show ?thesis
    by (simp add: responseEtag_kt_def)
qed

lemma last_dropWhile: "dropWhile P ys \<noteq> [] \<Longrightarrow> last (dropWhile P ys) = last ys"
  by (induction ys) auto

lemma trim_quote_ends:
  assumes "trim_quote str \<noteq> []"
  shows "hd (trim_quote str) \<noteq> CHR 0x22 \<and> last (trim_quote str) \<noteq> CHR 0x22"
proof -
  define a where "a = dropWhile (\<lambda>c. c = CHR 0x22) str"
  define b where "b = dropWhile (\<lambda>c. c = CHR 0x22) (rev a)"
  have t: "trim_quote str = rev b"
    by (simp add: trim_quote_def a_def b_def)
  have b: "b \<noteq> []" using assms t by simp
  then have a: "a \<noteq> []" by (auto simp: b_def)
  have "hd b \<noteq> CHR 0x22"
    using b hd_dropWhile [of "\<lambda>c. c = CHR 0x22" "rev a"] by (simp add: b_def)
  moreover have "hd a \<noteq> CHR 0x22"
    using a hd_dropWhile [of "\<lambda>c. c = CHR 0x22" str] by (simp add: a_def)
  moreover have "last b = hd a"
    using b last_dropWhile [of "\<lambda>c. c = CHR 0x22" "rev a"] a by (simp add: b_def last_rev)
  ultimately show ?thesis
    using b by (simp add: t hd_rev last_rev)
qed

text \<open>
  Claim C9 on the Swift side: the completion handler stores the header's value as it is.
  For a response whose \<open>Etag\<close> header is \<open>abc\<close> in quotes, the etag of the result still has
  the quotes; Kotlin gives \<open>abc\<close> for the same header.
\<close>

theorem etag_keeps_quotes_swift:
  "responseEtag [''Etag'' \<mapsto> quotedEtag] = quotedEtag
   \<and> activeTasks oneChunk = [0] \<and> state oneChunk = uploading
   \<and> continuation (urlSession_didCompleteWithError prepOk 0
                     (HTTPResponse 200 [''Etag'' \<mapsto> quotedEtag]) oneChunk)
       = Some (Inr (UploadResult ''up'' True [quotedEtag]))
   \<and> quotedEtag \<noteq> ''abc''
   \<and> responseEtag_kt [(''Etag'', quotedEtag)] = ''abc''"
  by (simp add: swift_eval kotlin_eval)

section \<open>Attempts and retries\<close>

text \<open>
  Kotlin's \<open>uploadPart\<close>: a part whose first two attempts throw and whose third gets a 2xx
  response returns \<open>true\<close> with its etag stored, after sleeping 1000 and 2000 milliseconds.
\<close>

lemma retry_then_success_kt:
  assumes "partNumber part \<notin> fst ` set (partETags (st w))" "200 \<le> code" "code \<le> 299"
  shows "uploadPart uid True part (throwing e1 # throwing e2 # responding code headers # ts) w
       = (ReturnedTrue,
          partUploaded uid part (responseEtag_kt headers) (w\<lparr> slept := slept w @ [1000, 2000] \<rparr>))"
  using assms
  by (simp add: uploadPart_def throwing_def responding_def MAX_RETRIES_def attemptFailed_def)

text \<open>
  A part whose three attempts throw returns \<open>false\<close> without a fourth attempt, whatever
  ticks follow: it is entered into \<open>failedChunks\<close>, \<open>chunk-failed\<close> is emitted, and the etags
  and the count of completed chunks are as before.
\<close>

lemma three_failures_kt:
  assumes "partNumber part \<notin> fst ` set (partETags (st w))"
  shows "uploadPart uid True part (throwing e1 # throwing e2 # throwing e3 # ts) w
       = (ReturnedFalse,
          w\<lparr> slept := slept w @ [1000, 2000],
             st := (st w)\<lparr> failedChunks :=
                      (if partNumber part \<in> set (failedChunks (st w)) then failedChunks (st w)
                       else failedChunks (st w) @ [partNumber part]) \<rparr>,
             emitted := emitted w
               @ [(plainEvent ''chunk-failed'' uid)
                    \<lparr> chunkIndex := Some (real_of_int (partNumber part - 1)), errorMessage := Some e3 \<rparr>] \<rparr>)"
  using assms
  by (cases ts) (simp_all add: uploadPart_def throwing_def MAX_RETRIES_def attemptFailed_def)

text \<open>
  Three parts ending in the order 3, 1, 2. When part 2 fails twice and then succeeds, the
  upload succeeds with the three etags. When part 2 fails three times, the other two parts
  have stored their etags all the same, and the upload ends with the exception that lists
  part 2 and returns no etag.
\<close>

lemma flaky_upload_succeeds_kt:
  "fst (performUpload ''up'' three_urls 11534336 [2, 0, 1] flaky (freshRun 11534336 3))
     = Some (Inr (UploadResult ''up'' True [''e1'', ''e2'', ''e3'']))
   \<and> slept (snd (performUpload ''up'' three_urls 11534336 [2, 0, 1] flaky (freshRun 11534336 3)))
     = [1000, 2000]"
  by (simp add: kotlin_eval flaky_def throwing_def responding_def)

lemma broken_upload_fails_kt:
  "fst (performUpload ''up'' three_urls 11534336 [2, 0, 1] broken (freshRun 11534336 3))
     = Some (Inl (UploadIncomplete [2]))
   \<and> partETags (st (snd (performUpload ''up'' three_urls 11534336 [2, 0, 1] broken (freshRun 11534336 3))))
     = [(3, ''e3''), (1, ''e1'')]
   \<and> slept (snd (performUpload ''up'' three_urls 11534336 [2, 0, 1] broken (freshRun 11534336 3)))
     = [1000, 2000]"
  by (simp add: kotlin_eval broken_def throwing_def responding_def)

text \<open>
  Claim C4 on the Swift side: the completion handler has no attempt budget. The only task
  of a one-chunk upload ends with a transport error on its first attempt; the handler fails
  the upload at once with that error and starts no further attempt.
\<close>

theorem no_retry_swift:
  "activeTasks oneChunk = [0] \<and> state oneChunk = uploading \<and> continuation oneChunk = None
   \<and> (\<lambda>s. (state s, continuation s, activeTasks s))
        (urlSession_didCompleteWithError prepOk 0 (TaskError (TransportError ''timed out'')) oneChunk)
      = (failed, Some (Inl (TransportError ''timed out'')), [])"
  by (simp add: swift_eval)

section \<open>The order of the etags\<close>

subsection \<open>Kotlin\<close>

text \<open>A new key is entered at the end of the insertion-ordered map.\<close>

lemma update_new: "k \<notin> fst ` set al \<Longrightarrow> AList.update k v al = al @ [(k, v)]"
  by (induction al) auto

lemma etagsFrom_partUploaded:
  assumes "etagsFrom Q w" "partNumber part \<notin> fst ` set (partETags (st w))" "Q (partNumber part) etag"
  shows "etagsFrom Q (partUploaded uid part etag w)"
  using assms by (simp add: etagsFrom_def partUploaded_def Let_def update_new)

lemma etagsFrom_attemptFailed:
  "etagsFrom Q w \<Longrightarrow> etagsFrom Q (attemptFailed uid part r e w)"
  by (simp add: etagsFrom_def attemptFailed_def)

lemma keys_attemptFailed:
  "partETags (st (attemptFailed uid part r e w)) = partETags (st w)"
  by (simp add: attemptFailed_def)

text \<open>Every step of a job keeps the invariant.\<close>

lemma etagsFrom_loop:
  assumes "etagsFrom Q w" "partNumber part \<notin> fst ` set (partETags (st w))"
      and "\<forall>t \<in> set ticks. \<forall>etag. succeeded t etag \<longrightarrow> Q (partNumber part) etag"
  shows "etagsFrom Q (snd (uploadPart_loop uid part retries ticks w))"
  using assms
proof (induction ticks arbitrary: retries w)
  case Nil
  then show ?case by simp
next
  case (Cons t ts)
  have rest: "\<forall>t' \<in> set ts. \<forall>etag. succeeded t' etag \<longrightarrow> Q (partNumber part) etag"
    using Cons.prems(3) by simp
  have paused: "etagsFrom Q (snd (uploadPart_loop uid part retries ts (w\<lparr> slept := slept w @ [1000] \<rparr>)))"
    using Cons.prems(1,2) rest by (intro Cons.IH) (simp_all add: etagsFrom_def)
  have failed: "etagsFrom Q (snd (uploadPart_loop uid part (Suc retries) ts
             (attemptFailed uid part (Suc retries) e w)))" for e
    using Cons.prems(1,2) rest
    by (intro Cons.IH) (simp_all add: etagsFrom_attemptFailed keys_attemptFailed)
  show ?case
  proof (cases "outcome t")
    case (Throws e)
    then show ?thesis
      using paused failed [of e] Cons.prems(1) by simp
  next
    case (Responds code headers)
    have "etagsFrom Q (partUploaded uid part (responseEtag_kt headers) w)"
      if "200 \<le> code" "code \<le> 299"
    proof -
      have "succeeded t (responseEtag_kt headers)"
        using that Responds by (simp add: succeeded_def)
      then have "Q (partNumber part) (responseEtag_kt headers)"
        using Cons.prems(3) by simp
      then show ?thesis
        using Cons.prems(1,2) by (intro etagsFrom_partUploaded)
    qed
    then show ?thesis
      using Responds paused failed [of "HttpStatus code"] Cons.prems(1) by simp
  qed
qed

lemma etagsFrom_uploadPart:
  assumes "etagsFrom Q w"
      and "\<forall>t \<in> set ticks. \<forall>etag. succeeded t etag \<longrightarrow> Q (partNumber part) etag"
  shows "etagsFrom Q (snd (uploadPart uid registered part ticks w))"
  using assms etagsFrom_loop [of Q w part ticks uid 0]
  by (simp add: uploadPart_def)

lemma snd_runParts_Cons:
  "snd (runParts uid ((part, registered, ticks) # items) w)
     = snd (runParts uid items (snd (uploadPart uid registered part ticks w)))"
  by (simp split: prod.splits)

lemma etagsFrom_runParts:
  assumes "etagsFrom Q w"
      and "\<forall>item \<in> set items. \<forall>t \<in> set (snd (snd item)). \<forall>etag.
             succeeded t etag \<longrightarrow> Q (partNumber (fst item)) etag"
  shows "etagsFrom Q (snd (runParts uid items w))"
  using assms
proof (induction items arbitrary: w)
  case Nil
  then show ?case by simp
next
  case (Cons item items)
  obtain part registered ticks where item: "item = (part, registered, ticks)"
    by (cases item) auto
  have 1: "etagsFrom Q (snd (uploadPart uid registered part ticks w))"
    using Cons.prems by (intro etagsFrom_uploadPart) (simp_all add: item)
  have 2: "etagsFrom Q (snd (runParts uid items (snd (uploadPart uid registered part ticks w))))"
    using 1 Cons.prems(2) by (intro Cons.IH) simp_all
  show ?case
    using 2 by (simp only: item snd_runParts_Cons)
qed

text \<open>
  With \<open>n\<close> etags under distinct part numbers between 1 and \<open>n\<close>, sorting by part number
  lists the part numbers \<open>1..n\<close>.
\<close>

lemma sorted_etags:
  assumes d: "distinct (map fst al)" and len: "length al = n"
      and keys: "\<forall>p \<in> set al. 1 \<le> fst p \<and> fst p \<le> int n"
  shows "map fst (sort_key fst al) = [1..int n]"
proof (rule sorted_distinct_set_unique)
  show "sorted (map fst (sort_key fst al))" by simp
  show "distinct (map fst (sort_key fst al))"
    using d by (simp add: distinct_map)
  show "sorted [1..int n]" by simp
  show "distinct [1..int n]" by simp
  have "fst ` set al \<subseteq> {1..int n}" using keys by auto
  moreover have "card (fst ` set al) = n"
    using d len by (metis distinct_card length_map list.set_map)
  moreover have "card {1..int n} = n" by simp
  ultimately have "fst ` set al = {1..int n}"
    by (metis card_subset_eq finite_atLeastAtMost_int)
  then show "set (map fst (sort_key fst al)) = set [1..int n]" by simp
qed

lemma etags_in_part_order_kt:
  assumes order: "\<forall>i \<in> set order. i < length urls"
      and res: "fst (performUpload uid urls fileSize order input (freshRun fileSize (length urls)))
                  = Some (Inr r)"
  shows "r_success r \<and> length (r_etags r) = length urls
       \<and> (\<forall>k<length urls. \<exists>t \<in> set (snd (input k)). succeeded t (r_etags r ! k))"
proof -
  define n where "n = length urls"
  define Q where "Q = (\<lambda>pn e. \<exists>i<n. pn = int i + 1 \<and> (\<exists>t \<in> set (snd (input i)). succeeded t e))"
  define items where "items = map (\<lambda>i. (partInfo fileSize urls i, input i)) order"
  define w1 where "w1 = snd (runParts uid items (freshRun fileSize n))"
  define al where "al = partETags (st w1)"
  have "etagsFrom Q (freshRun fileSize n)"
    by (simp add: etagsFrom_def freshRun_def)
  moreover have "\<forall>item \<in> set items. \<forall>t \<in> set (snd (snd item)). \<forall>etag.
             succeeded t etag \<longrightarrow> Q (partNumber (fst item)) etag"
    using order by (auto simp: items_def Q_def n_def partInfo_def Let_def)
  ultimately have inv: "etagsFrom Q w1"
    unfolding w1_def by (rule etagsFrom_runParts)
  have r: "r = UploadResult uid True (map snd (sort_key fst al))"
    and cnt: "completedChunks_kt (st w1) = int n"
    using res
    by (auto simp: performUpload_def items_def [symmetric] n_def [symmetric] w1_def al_def
        split: prod.splits if_splits)
  have d: "distinct (map fst al)" and len: "length al = n"
    and q: "\<forall>p \<in> set al. Q (fst p) (snd p)"
    using inv cnt by (simp_all add: etagsFrom_def al_def list_all_iff)
  have "\<forall>p \<in> set al. 1 \<le> fst p \<and> fst p \<le> int n"
    using q by (auto simp: Q_def)
  with d len have keys: "map fst (sort_key fst al) = [1..int n]"
    by (rule sorted_etags)
  have pos: "\<exists>t \<in> set (snd (input k)). succeeded t (r_etags r ! k)" if k: "k < n" for k
  proof -
    define p where "p = sort_key fst al ! k"
    have kl: "k < length (sort_key fst al)" using k len by simp
    have "fst p = map fst (sort_key fst al) ! k"
      using kl by (simp add: p_def)
    then have f: "fst p = 1 + int k"
      using k by (simp add: keys)
    have "p \<in> set (sort_key fst al)"
      unfolding p_def using kl by (rule nth_mem)
    then have "Q (fst p) (snd p)" using q by simp
    then have "\<exists>t \<in> set (snd (input k)). succeeded t (snd p)"
      using f by (auto simp: Q_def)
    moreover have "r_etags r ! k = snd p"
      using kl by (simp add: r p_def)
    ultimately show ?thesis by simp
  qed
  show ?thesis
    using pos len by (simp add: r n_def)
qed

subsection \<open>Swift\<close>

lemma consistent_complete:
  "consistent n Q s \<Longrightarrow> \<forall>k<n. k \<in> completedChunks s \<Longrightarrow> consistent n Q (complete s)"
  by (auto simp: consistent_def complete_def)

lemma consistent_fail: "consistent n Q s \<Longrightarrow> consistent n Q (fail e s)"
  by (auto simp: consistent_def fail_def)

lemma consistent_delegate:
  "consistent n Q s \<Longrightarrow> consistent n Q (s\<lparr> delegateCalls := calls \<rparr>)"
  by (auto simp: consistent_def)

lemma consistent_spinning:
  "consistent n Q s \<Longrightarrow> consistent n Q (s\<lparr> spinning := b \<rparr>)"
  by (auto simp: consistent_def)

lemma consistent_activeTasks:
  "consistent n Q s \<Longrightarrow> list_all (\<lambda>i. i < n) tasks \<Longrightarrow> consistent n Q (s\<lparr> activeTasks := tasks \<rparr>)"
  by (auto simp: consistent_def)

lemma consistent_uploadChunk:
  assumes c: "consistent n Q s" and i: "i < n"
  shows "consistent n Q (uploadChunk prep i s)"
proof (cases "prep i")
  case None
  have "list_all (\<lambda>i. i < n) (activeTasks s @ [i])"
    using c i by (simp add: consistent_def)
  with c have "consistent n Q (s\<lparr> activeTasks := activeTasks s @ [i] \<rparr>)"
    by (rule consistent_activeTasks)
  then show ?thesis by (simp add: uploadChunk_def None)
next
  case (Some e)
  show ?thesis
    using c by (simp add: uploadChunk_def Some consistent_fail consistent_delegate)
qed

text \<open>Every step of a session keeps the invariant.\<close>

lemma consistent_loop: "consistent n Q s \<Longrightarrow> consistent n Q (uploadNextChunks_loop prep s)"
proof (induction prep s rule: uploadNextChunks_loop.induct)
  case (1 prep s)
  have n: "length (uploadUrls s) = n"
    using "1.prems" by (simp add: consistent_def)
  show ?case
  proof (cases "int (length (activeTasks s)) < maxParallel s")
    case False
    then show ?thesis
      using "1.prems" by (simp add: uploadNextChunks_loop.simps [of prep s])
  next
    case True
    show ?thesis
    proof (cases "getNextChunkIndex s")
      case None
      show ?thesis
      proof (cases "activeTasks s = []")
        case True
        then have "\<forall>k<n. k \<in> completedChunks s"
          using None n by (simp add: getNextChunkIndex_None)
        then have "consistent n Q (complete s)"
          using "1.prems" by (intro consistent_complete)
        then show ?thesis
          using \<open>int (length (activeTasks s)) < maxParallel s\<close> None True
          by (simp add: uploadNextChunks_loop.simps [of prep s])
      next
        case False
        then show ?thesis
          using \<open>int (length (activeTasks s)) < maxParallel s\<close> None "1.prems"
          by (simp add: uploadNextChunks_loop.simps [of prep s])
      qed
    next
      case (Some j)
      have j: "j < n"
        using getNextChunkIndex_Some [OF Some] n by simp
      have c: "consistent n Q (uploadChunk prep j s)"
        using "1.prems" j by (rule consistent_uploadChunk)
      show ?thesis
      proof (cases "prep j")
        case None
        have "consistent n Q (uploadNextChunks_loop prep (uploadChunk prep j s))"
          using c by (rule "1.IH" [OF True Some None])
        then show ?thesis
          using True Some None by (simp add: uploadNextChunks_loop.simps [of prep s])
      next
        case (Some e)
        have "consistent n Q ((uploadChunk prep j s)\<lparr> spinning := True \<rparr>)"
          using c by (rule consistent_spinning)
        then show ?thesis
          using True \<open>getNextChunkIndex s = Some j\<close> Some
          by (simp add: uploadNextChunks_loop.simps [of prep s])
      qed
    qed
  qed
qed

lemma consistent_uploadNextChunks: "consistent n Q s \<Longrightarrow> consistent n Q (uploadNextChunks prep s)"
  by (simp add: uploadNextChunks_def onQueue_def consistent_loop)

lemma consistent_chunkFailed: "consistent n Q s \<Longrightarrow> consistent n Q (chunkFailed index e s)"
  by (simp add: chunkFailed_def Let_def consistent_fail consistent_delegate)

lemma consistent_start:
  "consistent (length urls) Q (start prep (newSession uid urls parallel fileSize))"
proof -
  have "consistent (length urls) Q ((newSession uid urls parallel fileSize)\<lparr> state := uploading \<rparr>)"
    by (auto simp: consistent_def newSession_def)
  then show ?thesis
    unfolding start_def by (rule consistent_uploadNextChunks)
qed

lemma consistent_chunk_done:
  assumes c: "consistent n Q s" and i: "index < n" and q: "Q index etag"
      and live: "state s = uploading \<or> state s = paused"
  shows "consistent n Q (s\<lparr> etags := (etags s)[index := etag],
                            completedChunks := insert index (completedChunks s),
                            bytesUploaded := b \<rparr>)"
proof -
  have len: "length (etags s) = n" using c by (simp add: consistent_def)
  have old: "k \<in> completedChunks s \<Longrightarrow> k < n \<and> Q k (etags s ! k)" for k
    using c by (simp add: consistent_def)
  have new: "k < n \<and> Q k ((etags s)[index := etag] ! k)" if "k \<in> insert index (completedChunks s)" for k
  proof (cases "k = index")
    case True
    then show ?thesis using i q len by simp
  next
    case False
    then show ?thesis using that old [of k] by simp
  qed
  have open_: "\<not> (continuation s = Some (Inr r) \<and> r_success r)" for r
    using c live by (auto simp: consistent_def)
  show ?thesis
    unfolding consistent_def using c new open_ by (auto simp: consistent_def)
qed

lemma consistent_chunkSucceeded:
  assumes c: "consistent n Q s" and i: "index < n" and q: "Q index etag"
      and live: "state s = uploading \<or> state s = paused"
  shows "consistent n Q (chunkSucceeded prep index etag s)"
proof -
  define s2 where "s2 = s\<lparr> etags := (etags s)[index := etag],
                   completedChunks := insert index (completedChunks s),
                   bytesUploaded := bytesUploaded s
                     + min (chunkSize s) (totalBytes s - int index * chunkSize s) \<rparr>"
  define s3 where "s3 = s2\<lparr> delegateCalls := delegateCalls s2
                      @ [DidUpdateProgress (progress s2) (bytesUploaded s2), DidCompleteChunk index] \<rparr>"
  have "consistent n Q s2"
    unfolding s2_def using c i q live by (rule consistent_chunk_done)
  then have c3: "consistent n Q s3"
    unfolding s3_def by (rule consistent_delegate)
  have a: "chunkSucceeded prep index etag s = (if card (completedChunks s3) = length (uploadUrls s3)
                   then complete s3 else uploadNextChunks prep s3)"
    unfolding chunkSucceeded_def Let_def s3_def s2_def ..
  show ?thesis
  proof (cases "card (completedChunks s3) = length (uploadUrls s3)")
    case False
    then show ?thesis
      using a c3 by (simp add: consistent_uploadNextChunks)
  next
    case full: True
    have n3: "length (uploadUrls s3) = n"
      using c3 by (simp add: consistent_def)
    have "completedChunks s3 \<subseteq> {..<n}"
      using c3 by (auto simp: consistent_def)
    moreover have "card (completedChunks s3) = card {..<n}"
      using full n3 by simp
    ultimately have "completedChunks s3 = {..<n}"
      by (intro card_subset_eq) simp_all
    then have "\<forall>k<n. k \<in> completedChunks s3" by simp
    with c3 have "consistent n Q (complete s3)"
      by (rule consistent_complete)
    then show ?thesis using a full by simp
  qed
qed

lemma consistent_handler:
  assumes c: "consistent n Q s"
      and q: "\<forall>etag. respondedWith ended etag \<longrightarrow> Q index etag"
  shows "consistent n Q (urlSession_didCompleteWithError prep index ended s)"
proof (cases "spinning s \<or> index \<notin> set (activeTasks s)")
  case True
  then show ?thesis
    using c by (auto simp: urlSession_didCompleteWithError_def onQueue_def)
next
  case False
  define s1 where "s1 = s\<lparr> activeTasks := removeAll index (activeTasks s) \<rparr>"
  have i: "index < n"
    using c False by (auto simp: consistent_def list_all_iff)
  have "list_all (\<lambda>i. i < n) (removeAll index (activeTasks s))"
    using c by (auto simp: consistent_def list_all_iff)
  with c have c1: "consistent n Q s1"
    unfolding s1_def by (rule consistent_activeTasks)
  have eq: "urlSession_didCompleteWithError prep index ended s =
      (if state s1 \<noteq> uploading \<and> state s1 \<noteq> paused then s1
       else
         (case ended of
            TaskError e \<Rightarrow> chunkFailed index e s1
          | NoHTTPResponse \<Rightarrow> chunkFailed index (ChunkFailed index) s1
          | HTTPResponse statusCode allHeaderFields \<Rightarrow>
              if \<not> (200 \<le> statusCode \<and> statusCode \<le> 299)
              then chunkFailed index (ChunkFailed index) s1
              else chunkSucceeded prep index (responseEtag allHeaderFields) s1))"
    using False unfolding urlSession_didCompleteWithError_def onQueue_def Let_def s1_def by simp
  show ?thesis
  proof (cases "state s1 = uploading \<or> state s1 = paused")
    case False
    then show ?thesis
      unfolding eq using c1 by simp
  next
    case live: True
    show ?thesis
    proof (cases ended)
      case (TaskError e)
      then show ?thesis
        unfolding eq using c1 live by (auto simp: consistent_chunkFailed)
    next
      case NoHTTPResponse
      then show ?thesis
        unfolding eq using c1 live by (auto simp: consistent_chunkFailed)
    next
      case (HTTPResponse statusCode allHeaderFields)
      show ?thesis
      proof (cases "200 \<le> statusCode \<and> statusCode \<le> 299")
        case False
        then show ?thesis
          unfolding eq using HTTPResponse c1 live by (auto simp: consistent_chunkFailed)
      next
        case True
        have "respondedWith ended (responseEtag allHeaderFields)"
          using HTTPResponse True by (simp add: respondedWith_def)
        then have "Q index (responseEtag allHeaderFields)"
          using q by simp
        with c1 i have "consistent n Q (chunkSucceeded prep index (responseEtag allHeaderFields) s1)"
          using live by (rule consistent_chunkSucceeded)
        then show ?thesis
          unfolding eq using HTTPResponse True live by auto
      qed
    qed
  qed
qed

lemma consistent_deliver:
  assumes "consistent n Q s"
      and "\<forall>ev \<in> set events. \<forall>etag. respondedWith (snd ev) etag \<longrightarrow> Q (fst ev) etag"
  shows "consistent n Q (deliver prep events s)"
  using assms
proof (induction events arbitrary: s)
  case Nil
  then show ?case by (simp add: deliver_def)
next
  case (Cons ev events)
  have "consistent n Q (urlSession_didCompleteWithError prep (fst ev) (snd ev) s)"
    using Cons.prems by (intro consistent_handler) simp_all
  then have "consistent n Q (deliver prep events (urlSession_didCompleteWithError prep (fst ev) (snd ev) s))"
    using Cons.prems(2) by (intro Cons.IH) simp_all
  then show ?case by (simp add: deliver_def)
qed

lemma etags_in_part_order_swift:
  assumes res: "continuation (deliver prep events (start prep (newSession uid urls parallel fileSize)))
                  = Some (Inr r)"
      and ok: "r_success r"
  shows "length (r_etags r) = length urls
       \<and> (\<forall>k<length urls. \<exists>ev \<in> set events. fst ev = k \<and> respondedWith (snd ev) (r_etags r ! k))"
proof -
  define Q where "Q = (\<lambda>k etag. \<exists>ev \<in> set events. fst ev = k \<and> respondedWith (snd ev) etag)"
  define s where "s = deliver prep events (start prep (newSession uid urls parallel fileSize))"
  have "consistent (length urls) Q (start prep (newSession uid urls parallel fileSize))"
    by (rule consistent_start)
  moreover have "\<forall>ev \<in> set events. \<forall>etag. respondedWith (snd ev) etag \<longrightarrow> Q (fst ev) etag"
    by (auto simp: Q_def)
  ultimately have c: "consistent (length urls) Q s"
    unfolding s_def by (rule consistent_deliver)
  have "r_etags r = etags s" and "\<forall>k<length urls. k \<in> completedChunks s"
    using c res ok by (auto simp: consistent_def s_def)
  moreover have "length (etags s) = length urls"
    and "\<forall>k. k \<in> completedChunks s \<longrightarrow> Q k (etags s ! k)"
    using c by (simp_all add: consistent_def)
  ultimately show ?thesis
    by (auto simp: Q_def)
qed

text \<open>
  Claim C8. Swift: whatever completions a started session is given and in whatever order,
  when its continuation is resumed with a successful result, the result has one etag per
  URL and the etag at position \<open>k\<close> is the etag of a 2xx response to the task of chunk
  \<open>k\<close>, which is part \<open>k + 1\<close>. Kotlin: whatever the order in which the parts end and whatever
  they observe, when \<open>performUpload\<close> returns a result, the result is successful, has one
  etag per URL, and the etag at position \<open>k\<close> is the etag of a 2xx response to an attempt
  of the part of index \<open>k\<close>, which has part number \<open>k + 1\<close>.
\<close>

theorem etags_in_part_order:
  "(continuation (deliver prep events (start prep (newSession uid urls parallel fileSize)))
        = Some (Inr r) \<and> r_success r
      \<longrightarrow> length (r_etags r) = length urls
          \<and> (\<forall>k<length urls. \<exists>ev \<in> set events. fst ev = k \<and> respondedWith (snd ev) (r_etags r ! k)))
   \<and> ((\<forall>i \<in> set order. i < length urls)
        \<and> fst (performUpload uid urls fileSize order input (freshRun fileSize (length urls)))
            = Some (Inr r')
      \<longrightarrow> r_success r' \<and> length (r_etags r') = length urls
          \<and> (\<forall>k<length urls. \<exists>t \<in> set (snd (input k)). succeeded t (r_etags r' ! k)))"
  using etags_in_part_order_swift [of prep events uid urls parallel fileSize r]
    etags_in_part_order_kt [of order urls uid fileSize input r']
  by blast

theorem etags_in_part_order_witness:
  "continuation (deliver prepOk threeResponses (start prepOk (newSession ''up'' three_urls 3 11534336)))
      = Some (Inr (UploadResult ''up'' True [''e1'', ''e2'', ''e3'']))
   \<and> (\<exists>ev \<in> set threeResponses. fst ev = 0 \<and> respondedWith (snd ev) ([''e1'', ''e2'', ''e3''] ! 0))
   \<and> (\<exists>ev \<in> set threeResponses. fst ev = 2 \<and> respondedWith (snd ev) ([''e1'', ''e2'', ''e3''] ! 2))
   \<and> fst (performUpload ''up'' three_urls 11534336 [2, 0, 1] flaky (freshRun 11534336 3))
      = Some (Inr (UploadResult ''up'' True [''e1'', ''e2'', ''e3'']))
   \<and> (\<exists>t \<in> set (snd (flaky 1)). succeeded t ([''e1'', ''e2'', ''e3''] ! 1))"
proof -
  let ?r = "UploadResult ''up'' True [''e1'', ''e2'', ''e3'']"
  have l: "length three_urls = 3"
    by (simp add: three_urls_def)
  have sw: "continuation (deliver prepOk threeResponses (start prepOk (newSession ''up'' three_urls 3 11534336)))
      = Some (Inr ?r)"
    by (simp add: deliver_def threeResponses_def swift_eval)
  have ok: "r_success ?r" by simp
  have order: "\<forall>i \<in> set [2, 0, 1]. i < length three_urls"
    by (simp add: l)
  have kt: "fst (performUpload ''up'' three_urls 11534336 [2, 0, 1] flaky (freshRun 11534336 (length three_urls)))
      = Some (Inr ?r)"
    by (simp add: kotlin_eval flaky_def throwing_def responding_def)
  note inst = etags_in_part_order [of prepOk threeResponses "''up''" three_urls 3 11534336 ?r
      "[2, 0, 1]" flaky ?r]
  from inst sw ok
  have a: "\<forall>k<length three_urls. \<exists>ev \<in> set threeResponses. fst ev = k \<and> respondedWith (snd ev) (r_etags ?r ! k)"
    by blast
  from inst order kt
  have b: "\<forall>k<length three_urls. \<exists>t \<in> set (snd (flaky k)). succeeded t (r_etags ?r ! k)"
    by blast
  have "\<exists>ev \<in> set threeResponses. fst ev = 0 \<and> respondedWith (snd ev) ([''e1'', ''e2'', ''e3''] ! 0)"
    using a [rule_format, of 0] by (simp add: l)
  moreover have "\<exists>ev \<in> set threeResponses. fst ev = 2 \<and> respondedWith (snd ev) ([''e1'', ''e2'', ''e3''] ! 2)"
    using a [rule_format, of 2] by (simp add: l)
  moreover have "\<exists>t \<in> set (snd (flaky 1)). succeeded t ([''e1'', ''e2'', ''e3''] ! 1)"
    using b [rule_format, of 1] by (simp add: l)
  ultimately show ?thesis
    using sw kt by (simp add: l)
qed

end
